theory Spec2Isabelle
  imports Complex_Main
begin

section \<open>JavaScript objects as ordered property lists\<close>

text \<open>
  The job store of \<^verbatim>\<open>forn8n.js\<close> is a plain JavaScript object, written to a JSON file
  and read back on every access.  The eviction code depends on the order in which
  \<^verbatim>\<open>Object.entries\<close> enumerates the own properties of that object: keys that are
  canonical array indices (decimal integers from 0 to 2^32 - 2 without leading zeros)
  come first, in ascending numeric order, and all other string keys follow in the order
  in which they were created.  An object is modelled as the list of its own properties in
  creation order; \<open>entries\<close> computes the enumeration order from it.  The objects of
  the store come from \<^verbatim>\<open>JSON.parse\<close> and \<^verbatim>\<open>Object.fromEntries\<close>, so their prototype is
  \<^verbatim>\<open>Object.prototype\<close>: a read of a key that is not an own property finds the members
  every object inherits, and an assignment to the key \<^verbatim>\<open>__proto__\<close> that is not an own
  property runs the inherited setter, which replaces the prototype and creates nothing.
\<close>

type_synonym 'v js_object = "(string \<times> 'v) list"

definition is_digit :: "char \<Rightarrow> bool" where
  "is_digit c = (48 \<le> (of_char c :: int) \<and> (of_char c :: int) \<le> 57)"

definition digit_val :: "char \<Rightarrow> int" where
  "digit_val c = (of_char c :: int) - 48"

definition dec_value :: "string \<Rightarrow> int" where
  "dec_value s = foldl (\<lambda>n c. 10 * n + digit_val c) 0 s"

definition is_array_index :: "string \<Rightarrow> bool" where
  "is_array_index s =
     (s \<noteq> [] \<and> list_all is_digit s \<and> (hd s \<noteq> CHR ''0'' \<or> s = ''0'')
      \<and> dec_value s < 4294967295)"

text \<open>
  Defining an own property, as \<^verbatim>\<open>JSON.parse\<close> and \<^verbatim>\<open>Object.fromEntries\<close> do: an
  existing property keeps its place, a new one is created last.
\<close>

fun obj_define :: "string \<Rightarrow> 'v \<Rightarrow> 'v js_object \<Rightarrow> 'v js_object" where
  "obj_define k v [] = [(k, v)]"
| "obj_define k v ((k', v') # ps) =
     (if k' = k then (k, v) # ps else (k', v') # obj_define k v ps)"

text \<open>
  The assignment \<^verbatim>\<open>obj[k] = v\<close> of an object value: it defines the own property, except
  that for the key \<^verbatim>\<open>__proto__\<close>, when the object has no own property of that name, it
  leaves the own properties as they are.
\<close>

definition obj_set :: "string \<Rightarrow> 'v \<Rightarrow> 'v js_object \<Rightarrow> 'v js_object" where
  "obj_set k v obj =
     (if k = ''__proto__'' \<and> map_of obj k = None then obj else obj_define k v obj)"


text \<open>
  The names of the members of \<^verbatim>\<open>Object.prototype\<close> in Node.js.  They belong to the
  runtime, not to the server.
\<close>

definition object_prototype_names :: "string list" where
  "object_prototype_names =
     [''constructor'', ''__defineGetter__'', ''__defineSetter__'', ''hasOwnProperty'',
      ''__lookupGetter__'', ''__lookupSetter__'', ''isPrototypeOf'', ''propertyIsEnumerable'',
      ''toString'', ''valueOf'', ''__proto__'', ''toLocaleString'']"

text \<open>
  The value of \<^verbatim>\<open>obj[k] || null\<close> for an object whose own properties hold objects: the
  own property, or the inherited member of that name (a function, or the prototype
  itself for \<^verbatim>\<open>__proto__\<close>), or \<^verbatim>\<open>null\<close>.
\<close>

datatype 'v lookup = Null | Found 'v | Builtin string

text \<open>What a read of a key returns when the object has no own property of that name.\<close>

definition absent :: "string \<Rightarrow> 'v lookup" where
  "absent k = (if k \<in> set object_prototype_names then Builtin k else Null)"

definition obj_get :: "string \<Rightarrow> 'v js_object \<Rightarrow> 'v lookup" where
  "obj_get k obj = (case map_of obj k of Some v \<Rightarrow> Found v | None \<Rightarrow> absent k)"

definition entries :: "'v js_object \<Rightarrow> (string \<times> 'v) list" where
  "entries obj =
     sort_key (\<lambda>p. dec_value (fst p)) (filter (\<lambda>p. is_array_index (fst p)) obj)
     @ filter (\<lambda>p. \<not> is_array_index (fst p)) obj"

definition fromEntries :: "(string \<times> 'v) list \<Rightarrow> 'v js_object" where
  "fromEntries es = foldl (\<lambda>obj p. obj_define (fst p) (snd p) obj) [] es"

text \<open>\<^verbatim>\<open>xs.slice(-n)\<close>: the last \<open>n\<close> elements, all of them when there are fewer.\<close>

definition slice_last :: "nat \<Rightarrow> 'a list \<Rightarrow> 'a list" where
  "slice_last n xs = drop (length xs - n) xs"

section \<open>Job records and the storage file\<close>

text \<open>
  A job record is the message object returned by the image service.  Only the fields the
  server reads are named; \<open>uri\<close>, the first attachment's \<open>url\<close> and \<open>options\<close> may be
  missing.  \<open>timestamp\<close> is written by the store.
\<close>

record option_entry =
  label :: string
  custom :: string

record message =
  msg_id :: string
  flags :: int
  uri :: "string option"
  attachment_url :: "string option"
  options :: "option_entry list option"
  timestamp :: "int option"

text \<open>
  The storage file as \<^verbatim>\<open>loadMessages\<close> distinguishes it: unreadable (missing, or not
  JSON), blank, or a document \<^verbatim>\<open>{messages: {...}}\<close> whose mapping holds job records.
  That is every file the server itself writes; JSON documents of another shape are not
  represented.
\<close>

datatype storage_file =
    Unreadable
  | Blank
  | Wrapped "message js_object"

definition MAX_STORAGE_AGE_MS :: int where
  "MAX_STORAGE_AGE_MS = 24 * 60 * 60 * 1000"

definition MAX_STORAGE_SIZE :: nat where
  "MAX_STORAGE_SIZE = 100"

text \<open>
  \<^verbatim>\<open>loadMessages\<close> returns the mapping and leaves the file as it is, except that an
  unreadable file is reset to the empty document.
\<close>

fun loadMessages :: "storage_file \<Rightarrow> message js_object \<times> storage_file" where
  "loadMessages Unreadable = ([], Wrapped [])"
| "loadMessages Blank = ([], Blank)"
| "loadMessages (Wrapped m) = (m, Wrapped m)"

text \<open>\<^verbatim>\<open>data.timestamp || now\<close>: a missing or zero timestamp counts as \<open>now\<close>.\<close>

definition timestamp_or :: "int \<Rightarrow> message \<Rightarrow> int" where
  "timestamp_or now d =
     (case timestamp d of None \<Rightarrow> now | Some t \<Rightarrow> if t = 0 then now else t)"

definition fresh :: "int \<Rightarrow> string \<times> message \<Rightarrow> bool" where
  "fresh now p = (now - timestamp_or now (snd p) \<le> MAX_STORAGE_AGE_MS)"

text \<open>
  \<^verbatim>\<open>saveMessage(id, messageData)\<close>.  The two readings of the clock are parameters:
  \<open>stamp\<close> is the \<^verbatim>\<open>Date.now()\<close> stored in the record, \<open>now\<close> the one the age filter
  uses.  The result is the storage file after the rename.
\<close>

definition saveMessage ::
  "string \<Rightarrow> message \<Rightarrow> int \<Rightarrow> int \<Rightarrow> storage_file \<Rightarrow> storage_file" where
  "saveMessage ident messageData stamp now file =
     (let messages = fst (loadMessages file);
          messages' = obj_set ident (messageData\<lparr>timestamp := Some stamp\<rparr>) messages;
          cleanedMessages =
            fromEntries (slice_last MAX_STORAGE_SIZE (filter (fresh now) (entries messages')))
      in Wrapped cleanedMessages)"

text \<open>\<^verbatim>\<open>getMessage(id)\<close>: the value of \<^verbatim>\<open>messages[id] || null\<close>; it never raises.\<close>

definition getMessage :: "string \<Rightarrow> storage_file \<Rightarrow> message lookup" where
  "getMessage ident file = obj_get ident (fst (loadMessages file))"

text \<open>A sequence of saves, each with its id, record and two clock readings.\<close>

fun save_all :: "(string \<times> message \<times> int \<times> int) list \<Rightarrow> storage_file \<Rightarrow> storage_file" where
  "save_all [] file = file"
| "save_all ((ident, d, stamp, now) # ops) file =
     save_all ops (saveMessage ident d stamp now file)"

text \<open>The mapping a reader of the file sees, and its ids in enumeration order.\<close>

definition stored :: "storage_file \<Rightarrow> message js_object" where
  "stored file = fst (loadMessages file)"

definition stored_ids :: "storage_file \<Rightarrow> string list" where
  "stored_ids file = map fst (entries (stored file))"

subsection \<open>The eviction policy in the specification's words\<close>

text \<open>
  The specification describes the store as a mapping in insertion order: \<open>put\<close> merges
  the timestamp into the record and writes it under the id, drops every entry whose
  \<open>now - timestamp\<close> exceeds 24 hours, and keeps the most recently inserted 100 of the
  remainder.  \<open>spec_put\<close> is that description; it is compared with \<open>saveMessage\<close> below.
  \<open>spec_evict\<close> is the eviction alone, on any sequence of entries.
\<close>

definition spec_expired :: "int \<Rightarrow> message \<Rightarrow> bool" where
  "spec_expired now d =
     (case timestamp d of None \<Rightarrow> False | Some t \<Rightarrow> now - t > 24 * 60 * 60 * 1000)"

definition spec_evict :: "int \<Rightarrow> (string \<times> message) list \<Rightarrow> (string \<times> message) list" where
  "spec_evict now es = slice_last 100 (filter (\<lambda>p. \<not> spec_expired now (snd p)) es)"

definition spec_put ::
  "string \<Rightarrow> message \<Rightarrow> int \<Rightarrow> int \<Rightarrow> message js_object \<Rightarrow> message js_object" where
  "spec_put ident d stamp now m =
     spec_evict now (obj_define ident (d\<lparr>timestamp := Some stamp\<rparr>) m)"

text \<open>
  Well-formed stores: a JSON object has each key once.  \<open>plain_ids\<close> holds when no id
  is an array index, \<open>dated\<close> when no stored timestamp is the number zero.
\<close>

definition unique_ids :: "message js_object \<Rightarrow> bool" where
  "unique_ids m = distinct (map fst m)"

definition plain_ids :: "message js_object \<Rightarrow> bool" where
  "plain_ids m = list_all (\<lambda>p. \<not> is_array_index (fst p)) m"

definition dated :: "message js_object \<Rightarrow> bool" where
  "dated m = list_all (\<lambda>p. timestamp (snd p) \<noteq> Some 0) m"

text \<open>The entry a save writes, and the clock reading its age filter uses.\<close>

fun op_entry :: "string \<times> message \<times> int \<times> int \<Rightarrow> string \<times> message" where
  "op_entry (ident, d, stamp, now) = (ident, d\<lparr>timestamp := Some stamp\<rparr>)"

fun op_now :: "string \<times> message \<times> int \<times> int \<Rightarrow> int" where
  "op_now (ident, d, stamp, now) = now"

fun op_stamp :: "string \<times> message \<times> int \<times> int \<Rightarrow> int" where
  "op_stamp (ident, d, stamp, now) = stamp"

text \<open>No entry written by the saves is older than 24 hours at any of their clock readings.\<close>

definition no_expiry :: "(string \<times> message \<times> int \<times> int) list \<Rightarrow> bool" where
  "no_expiry ops =
     list_all (\<lambda>x. list_all (\<lambda>y. op_now y - op_stamp x \<le> MAX_STORAGE_AGE_MS) ops) ops"



subsection \<open>Concrete stores\<close>

text \<open>
  \<open>decimal\<close> is the decimal numeral of a natural number, as \<^verbatim>\<open>String(n)\<close> prints it.
  \<open>job\<close> is a record with no optional field, \<open>numbered_store\<close> a store whose ids are
  the numerals of the given numbers, \<open>lettered_store\<close> one whose ids are those
  numerals after the letter j.
\<close>

fun decimal :: "nat \<Rightarrow> string" where
  "decimal n =
     (if n < 10 then [char_of (48 + n)]
      else decimal (n div 10) @ [char_of (48 + n mod 10)])"

declare decimal.simps [simp del]

definition job :: "string \<Rightarrow> message" where
  "job i = \<lparr>msg_id = i, flags = 0, uri = None, attachment_url = None,
            options = None, timestamp = None\<rparr>"

definition numbered_store :: "nat list \<Rightarrow> message js_object" where
  "numbered_store ks = map (\<lambda>k. (decimal k, (job (decimal k))\<lparr>timestamp := Some 1000\<rparr>)) ks"

definition lettered :: "nat \<Rightarrow> string" where
  "lettered k = CHR ''j'' # decimal k"

definition lettered_store :: "nat list \<Rightarrow> message js_object" where
  "lettered_store ks = map (\<lambda>k. (lettered k, (job (lettered k))\<lparr>timestamp := Some 1000\<rparr>)) ks"

definition lettered_ops :: "nat list \<Rightarrow> (string \<times> message \<times> int \<times> int) list" where
  "lettered_ops ks = map (\<lambda>k. (lettered k, job (lettered k), 1000, 1000)) ks"


section \<open>Request values\<close>

text \<open>
  The fields of a request body are JSON values.  A number is a double; the numbers
  represented here are the integers of magnitude at most 2^53 - 1, which a double holds
  exactly and \<^verbatim>\<open>String\<close> prints in positional decimal notation.  Fractions and larger
  magnitudes (rounded by the JSON parser, and printed with an exponent from 10^21 on) are
  not represented, and neither are arrays and objects.
\<close>

typedef safe_int = "{n :: int. \<bar>n\<bar> \<le> 9007199254740991}"
  by (rule exI [of _ 0]) simp

definition safe :: "int \<Rightarrow> safe_int" where
  "safe n = Abs_safe_int n"

datatype js_value =
    JUndefined
  | JNull
  | JBool bool
  | JNum safe_int
  | JStr string

text \<open>JavaScript truthiness, as \<^verbatim>\<open>!x\<close> and \<^verbatim>\<open>x ? a : b\<close> test it.\<close>

fun truthy :: "js_value \<Rightarrow> bool" where
  "truthy JUndefined = False"
| "truthy JNull = False"
| "truthy (JBool b) = b"
| "truthy (JNum n) = (Rep_safe_int n \<noteq> 0)"
| "truthy (JStr s) = (s \<noteq> [])"

text \<open>\<^verbatim>\<open>String(x)\<close>, which \<^verbatim>\<open>parseInt\<close>, property lookup and template strings apply.\<close>

definition int_string :: "int \<Rightarrow> string" where
  "int_string n = (if n < 0 then CHR ''-'' # decimal (nat (- n)) else decimal (nat n))"

fun to_string :: "js_value \<Rightarrow> string" where
  "to_string JUndefined = ''undefined''"
| "to_string JNull = ''null''"
| "to_string (JBool b) = (if b then ''true'' else ''false'')"
| "to_string (JNum n) = int_string (Rep_safe_int n)"
| "to_string (JStr s) = s"

text \<open>
  \<^verbatim>\<open>parseInt(string)\<close> with no radix: leading white space is skipped, then an optional
  sign, then an optional \<^verbatim>\<open>0x\<close> or \<^verbatim>\<open>0X\<close> that selects radix 16, then the longest run
  of digits of the radix.  No digit gives \<^verbatim>\<open>NaN\<close>, here \<open>None\<close>; whatever follows the
  digits is ignored.  A character of a string stands for the code unit of its code, from
  0 to 255; strings with other code units are not represented.  Among these code units
  the white space and line terminators of JavaScript are the tab, line feed, vertical
  tab, form feed, carriage return, space and no-break space.
\<close>

definition is_space :: "char \<Rightarrow> bool" where
  "is_space c = ((of_char c :: int) \<in> {9, 10, 11, 12, 13, 32, 160})"

definition char_digit :: "char \<Rightarrow> int option" where
  "char_digit c =
     (let k = (of_char c :: int) in
      if is_digit c then Some (digit_val c)
      else if 97 \<le> k \<and> k \<le> 122 then Some (k - 87)
      else if 65 \<le> k \<and> k \<le> 90 then Some (k - 55)
      else None)"

definition in_radix :: "int \<Rightarrow> char \<Rightarrow> bool" where
  "in_radix radix c = (case char_digit c of None \<Rightarrow> False | Some v \<Rightarrow> v < radix)"

definition radix_value :: "int \<Rightarrow> string \<Rightarrow> int" where
  "radix_value radix s =
     foldl (\<lambda>n c. radix * n + (case char_digit c of None \<Rightarrow> 0 | Some v \<Rightarrow> v)) 0 s"

definition strip_sign :: "string \<Rightarrow> int \<times> string" where
  "strip_sign s =
     (case s of
        [] \<Rightarrow> (1, [])
      | c # cs \<Rightarrow> if c = CHR ''-'' then (- 1, cs) else if c = CHR ''+'' then (1, cs) else (1, s))"

definition strip_radix :: "string \<Rightarrow> int \<times> string" where
  "strip_radix s =
     (case s of
        c # d # cs \<Rightarrow>
          if c = CHR ''0'' \<and> (d = CHR ''x'' \<or> d = CHR ''X'') then (16, cs) else (10, s)
      | _ \<Rightarrow> (10, s))"

definition parse_int :: "string \<Rightarrow> int option" where
  "parse_int s =
     (let (sign, s1) = strip_sign (dropWhile is_space s);
          (radix, s2) = strip_radix s1;
          ds = takeWhile (in_radix radix) s2
      in if ds = [] then None else Some (sign * radix_value radix ds))"

definition parseInt :: "js_value \<Rightarrow> int option" where
  "parseInt v = parse_int (to_string v)"

section \<open>The image service, the session and the retrying call\<close>

text \<open>
  What the client library and the runtime do is not part of the server: it is given by
  an environment.  Each of its functions takes the number of calls made before, so that
  successive calls may differ.  A call either raises an error or returns; \<^verbatim>\<open>Custom\<close>
  and \<^verbatim>\<open>Imagine\<close> may return nothing (\<open>None\<close>).
\<close>

record js_error =
  err_code :: "string option"
  err_message :: string

datatype 'a outcome = Raises js_error | Returns 'a

record custom_params =
  msgId :: string
  cp_flags :: int
  customId :: string

record env =
  init_result :: "nat \<Rightarrow> unit outcome"
  custom_result :: "nat \<Rightarrow> custom_params \<Rightarrow> message option outcome"
  imagine_result :: "nat \<Rightarrow> string \<Rightarrow> message option outcome"
  clock :: "nat \<Rightarrow> int"
  random :: "nat \<Rightarrow> real"

text \<open>
  The state of the process: the session flag, the storage file, the calls made so far in
  order, and how often each function of the environment has been called.
\<close>

datatype event =
    InitCalled
  | Waited int
  | CustomCalled custom_params
  | ImagineCalled string

record world =
  mjInitialized :: bool
  storage :: storage_file
  trace :: "event list"
  init_calls :: nat
  custom_calls :: nat
  imagine_calls :: nat
  clock_reads :: nat
  random_draws :: nat

definition log_event :: "event \<Rightarrow> world \<Rightarrow> world" where
  "log_event ev w = w\<lparr>trace := trace w @ [ev]\<rparr>"

text \<open>\<^verbatim>\<open>await new Promise(resolve => setTimeout(resolve, ms))\<close>\<close>

definition wait :: "int \<Rightarrow> world \<Rightarrow> world" where
  "wait ms w = log_event (Waited ms) w"

definition maxRetries :: nat where
  "maxRetries = 3"

definition baseDelay :: int where
  "baseDelay = 3000"

text \<open>
  The loop of \<^verbatim>\<open>initializeMidjourney\<close>, from a given \<^verbatim>\<open>retryCount\<close>.  \<open>Inl\<close> is the
  error thrown to the caller.
\<close>

function init_loop :: "env \<Rightarrow> nat \<Rightarrow> world \<Rightarrow> (js_error + unit) \<times> world" where
  "init_loop e retryCount w =
     (if retryCount < maxRetries then
        (let w1 = log_event InitCalled (w\<lparr>init_calls := init_calls w + 1\<rparr>) in
         case init_result e (init_calls w) of
           Returns u \<Rightarrow> (Inr (), w1\<lparr>mjInitialized := True\<rparr>)
         | Raises error \<Rightarrow>
             (let retryCount' = retryCount + 1 in
              if err_code error = Some ''ENOTFOUND'' \<and> retryCount' < maxRetries
              then init_loop e retryCount' (wait (baseDelay * int retryCount') w1)
              else (Inl error, w1)))
      else (Inr (), w))"
  by pat_completeness auto
termination
  by (relation "measure (\<lambda>(e, retryCount, w). maxRetries - retryCount)") auto

declare init_loop.simps [simp del]

definition initializeMidjourney :: "env \<Rightarrow> world \<Rightarrow> (js_error + unit) \<times> world" where
  "initializeMidjourney e w = (if mjInitialized w then (Inr (), w) else init_loop e 0 w)"

text \<open>
  \<^verbatim>\<open>safeCall(params, retries = 2, delay = 3000)\<close>: the loop from a given \<^verbatim>\<open>attempt\<close>.
  When the loop ends without a return the function returns \<^verbatim>\<open>undefined\<close>.
\<close>

function safeCall_loop ::
  "env \<Rightarrow> custom_params \<Rightarrow> nat \<Rightarrow> int \<Rightarrow> nat \<Rightarrow> world
     \<Rightarrow> (js_error + message option) \<times> world" where
  "safeCall_loop e params retries delay attempt w =
     (if attempt \<le> retries then
        (let w1 = log_event (CustomCalled params) (w\<lparr>custom_calls := custom_calls w + 1\<rparr>) in
         case custom_result e (custom_calls w) params of
           Returns r \<Rightarrow> (Inr r, w1)
         | Raises err \<Rightarrow>
             if attempt = retries then (Inl err, w1)
             else safeCall_loop e params retries delay (attempt + 1) (wait delay w1))
      else (Inr None, w))"
  by pat_completeness auto
termination
  by (relation "measure (\<lambda>(e, params, retries, delay, attempt, w). Suc retries - attempt)") auto

declare safeCall_loop.simps [simp del]

definition safeCall :: "env \<Rightarrow> custom_params \<Rightarrow> world \<Rightarrow> (js_error + message option) \<times> world" where
  "safeCall e params w = safeCall_loop e params 2 3000 0 w"

text \<open>
  The calls and waits of \<open>n\<close> attempts, in order: \<open>attempts_trace\<close> for the retrying
  call (the same wait after every failed attempt but the last), \<open>init_trace\<close> for the
  connection (the wait after the i-th failed attempt is i times the base delay).
\<close>

definition attempts_trace :: "custom_params \<Rightarrow> int \<Rightarrow> nat \<Rightarrow> event list" where
  "attempts_trace params delay n =
     concat (map (\<lambda>i. if i < n then [CustomCalled params, Waited delay] else [CustomCalled params])
               [1..<Suc n])"

definition init_trace :: "nat \<Rightarrow> event list" where
  "init_trace n =
     concat (map (\<lambda>i. if i < n then [InitCalled, Waited (baseDelay * int i)] else [InitCalled])
               [1..<Suc n])"

definition raises :: "'a outcome \<Rightarrow> bool" where
  "raises x = (case x of Raises err \<Rightarrow> True | Returns r \<Rightarrow> False)"

definition raises_ENOTFOUND :: "'a outcome \<Rightarrow> bool" where
  "raises_ENOTFOUND x =
     (case x of Raises err \<Rightarrow> err_code err = Some ''ENOTFOUND'' | Returns r \<Rightarrow> False)"

subsection \<open>Concrete environments\<close>

text \<open>
  \<open>quiet_env\<close> connects at once and returns nothing from every call; \<open>world0\<close> is the
  process at start, with the empty store.  \<open>dns_error\<close> is the resolution failure that
  \<^verbatim>\<open>initializeMidjourney\<close> retries, \<open>other_error\<close> any other failure.
\<close>

definition dns_error :: js_error where
  "dns_error = \<lparr>err_code = Some ''ENOTFOUND'', err_message = ''getaddrinfo ENOTFOUND''\<rparr>"

definition other_error :: js_error where
  "other_error = \<lparr>err_code = None, err_message = ''socket hang up''\<rparr>"

definition quiet_env :: env where
  "quiet_env =
     \<lparr>init_result = (\<lambda>k. Returns ()),
      custom_result = (\<lambda>k p. Returns None),
      imagine_result = (\<lambda>k s. Returns None),
      clock = (\<lambda>k. 1000 + int k),
      random = (\<lambda>k. 1 / 2)\<rparr>"

definition dns_twice_env :: env where
  "dns_twice_env = quiet_env\<lparr>init_result := (\<lambda>k. if k < 2 then Raises dns_error else Returns ())\<rparr>"

definition world0 :: world where
  "world0 =
     \<lparr>mjInitialized = False, storage = Wrapped [], trace = [], init_calls = 0,
      custom_calls = 0, imagine_calls = 0, clock_reads = 0, random_draws = 0\<rparr>"

section \<open>The two endpoints\<close>

text \<open>
  A response is its status and the fields of its JSON body that the server sets.  The
  request bodies carry JSON values; \<^verbatim>\<open>variationNumber\<close> is taken to be a JSON integer
  when it is present (\<open>None\<close> when it is missing).
\<close>

record upscaled =
  up_label :: string
  up_imageUrl :: string
  upscaleNumber :: "int option"

datatype response =
    BadRequest string
  | NotFound string "string list option"
  | ServerError string "string option"
  | Generated string "string option" "string list" nat
  | Completed js_value string string "upscaled list" string

fun status_code :: "response \<Rightarrow> nat" where
  "status_code (BadRequest msg) = 400"
| "status_code (NotFound msg available) = 404"
| "status_code (ServerError msg details) = 500"
| "status_code (Generated messageId imageUrl labels generatedCount) = 200"
| "status_code (Completed originalMessageId variationLabel variationMessageId ups pacing) = 200"


record upscale_body =
  originalMessageId :: js_value
  variationNumber :: "int option"
  delayBetweenUpscales :: js_value

text \<open>\<^verbatim>\<open>m.uri || m.attachments?.[0]?.url\<close>: a missing or empty \<^verbatim>\<open>uri\<close> gives way.\<close>

definition image_url :: "message \<Rightarrow> string option" where
  "image_url m =
     (case uri m of
        None \<Rightarrow> attachment_url m
      | Some u \<Rightarrow> if u \<noteq> [] then Some u else attachment_url m)"

text \<open>\<^verbatim>\<open>saveMessage\<close> and \<^verbatim>\<open>getMessage\<close> on the file of the process.\<close>

definition save_in_world :: "env \<Rightarrow> string \<Rightarrow> message \<Rightarrow> world \<Rightarrow> world" where
  "save_in_world e ident m w =
     w\<lparr>storage := saveMessage ident m (clock e (clock_reads w)) (clock e (clock_reads w + 1))
                    (storage w),
       clock_reads := clock_reads w + 2\<rparr>"

definition get_in_world :: "string \<Rightarrow> world \<Rightarrow> message lookup \<times> world" where
  "get_in_world ident w =
     (getMessage ident (storage w), w\<lparr>storage := snd (loadMessages (storage w))\<rparr>)"


text \<open>
  The pacing delay of one upscale step: the expression of the source, with the value
  \<open>r\<close> of \<^verbatim>\<open>Math.random()\<close>.
\<close>

definition delay_ms :: "js_value \<Rightarrow> real \<Rightarrow> int" where
  "delay_ms d r =
     (if truthy d
      then max 10000
             (min (case parseInt d of None \<Rightarrow> 10000 | Some n \<Rightarrow> if n = 0 then 10000 else n)
                  15000)
      else \<lfloor>r * 5000\<rfloor> + 10000)"

text \<open>
  The loop over the upscale labels.  \<open>Inl\<close> is an error thrown out of the loop; the
  list is \<^verbatim>\<open>upscaledResults\<close>.  \<^verbatim>\<open>Math.random\<close> is called only when the delay was not
  supplied.
\<close>

fun upscale_loop ::
  "env \<Rightarrow> js_value \<Rightarrow> message \<Rightarrow> option_entry list \<Rightarrow> string list \<Rightarrow> upscaled list \<Rightarrow> world
     \<Rightarrow> (js_error + upscaled list) \<times> world" where
  "upscale_loop e d variationMessage opts [] upscaledResults w = (Inr upscaledResults, w)"
| "upscale_loop e d variationMessage opts (lbl # labels) upscaledResults w =
     (let delayMs = delay_ms d (random e (random_draws w));
          w1 = (if truthy d then w else w\<lparr>random_draws := random_draws w + 1\<rparr>);
          w2 = wait delayMs w1
      in case find (\<lambda>x. label x = lbl) opts of
           None \<Rightarrow> upscale_loop e d variationMessage opts labels upscaledResults w2
         | Some upscaleOption \<Rightarrow>
             (case safeCall e \<lparr>msgId = msg_id variationMessage, cp_flags = flags variationMessage,
                                customId = custom upscaleOption\<rparr> w2 of
                (Inl err, w3) \<Rightarrow> (Inl err, w3)
              | (Inr None, w3) \<Rightarrow>
                  upscale_loop e d variationMessage opts labels upscaledResults w3
              | (Inr (Some upscale), w3) \<Rightarrow>
                  (case image_url upscale of
                     None \<Rightarrow> upscale_loop e d variationMessage opts labels upscaledResults w3
                   | Some imageUrl \<Rightarrow>
                       if imageUrl = []
                       then upscale_loop e d variationMessage opts labels upscaledResults w3
                       else upscale_loop e d variationMessage opts labels
                              (upscaledResults @
                                 [\<lparr>up_label = lbl, up_imageUrl = imageUrl,
                                   upscaleNumber = parse_int (drop 1 lbl)\<rparr>])
                              w3)))"

definition upscaleLabels :: "string list" where
  "upscaleLabels = [''U1'', ''U2'']"

definition pacing_text :: "js_value \<Rightarrow> string" where
  "pacing_text d =
     (if truthy d then to_string d @ ''ms (clamped to 10-15s)'' else ''random 10-15s'')"

text \<open>\<^verbatim>\<open>POST /generate-upscale-from-variation\<close>\<close>

definition generate_upscale :: "env \<Rightarrow> upscale_body \<Rightarrow> world \<Rightarrow> response \<times> world" where
  "generate_upscale e body w =
     (case initializeMidjourney e w of
        (Inl error, w1) \<Rightarrow> (ServerError (err_message error) None, w1)
      | (Inr u, w1) \<Rightarrow>
          (case variationNumber body of
             None \<Rightarrow>
               (BadRequest ''Both originalMessageId and variationNumber (1-4) are required'', w1)
           | Some vn \<Rightarrow>
               if \<not> truthy (originalMessageId body) \<or> vn < 1 \<or> vn > 4
               then (BadRequest ''Both originalMessageId and variationNumber (1-4) are required'',
                     w1)
               else
                 (case get_in_world (to_string (originalMessageId body)) w1 of
                    (Null, w2) \<Rightarrow>
                      (NotFound ''Original message not found or has no options'' None, w2)
                  | (Builtin name, w2) \<Rightarrow>
                      (NotFound ''Original message not found or has no options'' None, w2)
                  | (Found originalMessage, w2) \<Rightarrow>
                      (case options originalMessage of
                         None \<Rightarrow>
                           (NotFound ''Original message not found or has no options'' None, w2)
                       | Some os \<Rightarrow>
                           (let variationLabel = ''V'' @ int_string vn in
                            case find (\<lambda>x. label x = variationLabel) os of
                              None \<Rightarrow>
                                (NotFound (''Variation '' @ variationLabel @ '' not available'')
                                   (Some (map label os)), w2)
                            | Some variationOption \<Rightarrow>
                                (case safeCall e \<lparr>msgId = msg_id originalMessage,
                                                   cp_flags = flags originalMessage,
                                                   customId = custom variationOption\<rparr> w2 of
                                   (Inl err, w3) \<Rightarrow> (ServerError (err_message err) None, w3)
                                 | (Inr None, w3) \<Rightarrow>
                                     (ServerError ''Failed to create variation''
                                        (Some ''No response from Midjourney''), w3)
                                 | (Inr (Some variationMessage), w3) \<Rightarrow>
                                     (case options variationMessage of
                                        None \<Rightarrow>
                                          (ServerError ''Failed to create variation''
                                             (Some ''No options available''), w3)
                                      | Some vos \<Rightarrow>
                                          (case upscale_loop e (delayBetweenUpscales body)
                                                  variationMessage vos upscaleLabels []
                                                  (save_in_world e (msg_id variationMessage)
                                                     variationMessage w3) of
                                             (Inl err, w4) \<Rightarrow>
                                               (ServerError (err_message err) None, w4)
                                           | (Inr upscaledResults, w4) \<Rightarrow>
                                               (Completed (originalMessageId body) variationLabel
                                                  (msg_id variationMessage) upscaledResults
                                                  (pacing_text (delayBetweenUpscales body)),
                                                w4)))))))))"

subsection \<open>The pacing rule in the specification's words\<close>


subsection \<open>The validation rules in the specification's words, and concrete requests\<close>

text \<open>
  The specification accepts a keyword that is a non-empty string and a count that is a
  number from 1 to 10.  \<open>count_in_range\<close> is what the server tests instead: the integer
  that \<^verbatim>\<open>parseInt\<close> reads at the start of the count lies from 1 to 10.
\<close>

definition spec_keyword_valid :: "js_value \<Rightarrow> bool" where
  "spec_keyword_valid k = (case k of JStr s \<Rightarrow> s \<noteq> [] | _ \<Rightarrow> False)"



text \<open>
  The looked-up value is absent, or it is a record with no options; a member of
  \<^verbatim>\<open>Object.prototype\<close> has no property \<^verbatim>\<open>options\<close> either.
\<close>

definition no_options :: "message lookup \<Rightarrow> bool" where
  "no_options x = (case x of Null \<Rightarrow> True | Builtin name \<Rightarrow> True | Found m \<Rightarrow> options m = None)"

text \<open>No call of \<^verbatim>\<open>mj.Custom\<close> raises three times in a row: no retried call gives up.\<close>

definition no_triple_raise :: "env \<Rightarrow> bool" where
  "no_triple_raise e =
     (\<forall>k p. \<not> (raises (custom_result e k p) \<and> raises (custom_result e (k + 1) p)
                \<and> raises (custom_result e (k + 2) p)))"

text \<open>An upscale entry is one of the given labels, with an option behind it and a locator.\<close>

definition completed_ok :: "option_entry list \<Rightarrow> string list \<Rightarrow> upscaled \<Rightarrow> bool" where
  "completed_ok opts labels u =
     (up_label u \<in> set labels \<and> up_imageUrl u \<noteq> []
      \<and> find (\<lambda>x. label x = up_label u) opts \<noteq> None)"

text \<open>
  A stored job with the options V1 and V2, the variation it leads to (which offers U2
  but not U1), an upscale result, and an environment that returns them.  Then a variation
  that offers both U1 and U2, the upscale result for U1, and an environment in which the
  call for U1 returns that result and every call for U2 raises.
\<close>

definition original_job :: message where
  "original_job =
     (job ''o1'')\<lparr>options := Some [\<lparr>label = ''V1'', custom = ''cv1''\<rparr>,
                                    \<lparr>label = ''V2'', custom = ''cv2''\<rparr>]\<rparr>"

definition variation_job :: message where
  "variation_job = (job ''v1'')\<lparr>options := Some [\<lparr>label = ''U2'', custom = ''cu2''\<rparr>]\<rparr>"

definition upscale_job :: message where
  "upscale_job = (job ''u2'')\<lparr>uri := Some ''https://cdn/u2.png''\<rparr>"

definition ready_world :: world where
  "ready_world =
     world0\<lparr>mjInitialized := True,
            storage := Wrapped [(''o1'', original_job\<lparr>timestamp := Some 1000\<rparr>)]\<rparr>"


definition upscale_env :: env where
  "upscale_env =
     quiet_env\<lparr>custom_result :=
       (\<lambda>k p. if customId p = ''cv1'' then Returns (Some variation_job)
              else Returns (Some upscale_job))\<rparr>"

definition full_variation_job :: message where
  "full_variation_job =
     (job ''v1'')\<lparr>options := Some [\<lparr>label = ''U1'', custom = ''cu1''\<rparr>,
                                    \<lparr>label = ''U2'', custom = ''cu2''\<rparr>]\<rparr>"

definition first_upscale_job :: message where
  "first_upscale_job = (job ''u1'')\<lparr>uri := Some ''https://cdn/u1.png''\<rparr>"

definition failing_upscale_env :: env where
  "failing_upscale_env =
     quiet_env\<lparr>custom_result :=
       (\<lambda>k p. if customId p = ''cv1'' then Returns (Some full_variation_job)
              else if customId p = ''cu1'' then Returns (Some first_upscale_job)
              else Raises other_error)\<rparr>"


section \<open>The job store: properties\<close>

lemma obj_define_keys:
  "map fst (obj_define k v m) = (if k \<in> set (map fst m) then map fst m else map fst m @ [k])"
  by (induction m) force+

lemma obj_define_new: "k \<notin> set (map fst m) \<Longrightarrow> obj_define k v m = m @ [(k, v)]"
  by (induction m) auto

lemma obj_define_distinct: "distinct (map fst m) \<Longrightarrow> distinct (map fst (obj_define k v m))"
  by (simp add: obj_define_keys)


lemma set_obj_define: "set (obj_define k v m) \<subseteq> insert (k, v) (set m)"
  by (induction m) (auto split: if_splits)

lemma map_of_None_iff: "(map_of m k = None) = (k \<notin> set (map fst m))"
  by (simp add: map_of_eq_None_iff)

lemma obj_set_define:
  "k \<noteq> ''__proto__'' \<or> k \<in> set (map fst m) \<Longrightarrow> obj_set k v m = obj_define k v m"
  by (auto simp: obj_set_def map_of_None_iff)


lemma obj_set_keys:
  "k \<noteq> ''__proto__'' \<Longrightarrow>
   map fst (obj_set k v m) = (if k \<in> set (map fst m) then map fst m else map fst m @ [k])"
  using obj_set_define [of k m v] obj_define_keys [of k v m] by simp

lemma obj_set_keys_old:
  "k \<in> set (map fst m) \<Longrightarrow> map fst (obj_set k v m) = map fst m"
  by (simp add: obj_set_define obj_define_keys)

lemma obj_set_new:
  "k \<notin> set (map fst m) \<Longrightarrow> k \<noteq> ''__proto__'' \<Longrightarrow> obj_set k v m = m @ [(k, v)]"
  by (simp add: obj_set_define obj_define_new)

lemma obj_set_distinct: "distinct (map fst m) \<Longrightarrow> distinct (map fst (obj_set k v m))"
  by (simp add: obj_set_def obj_define_distinct)


lemma foldl_obj_define_distinct:
  "distinct (map fst (acc @ es)) \<Longrightarrow>
   foldl (\<lambda>obj p. obj_define (fst p) (snd p) obj) acc es = acc @ es"
proof (induction es arbitrary: acc)
  case Nil
  then show ?case by simp
next
  case (Cons e es)
  have new: "fst e \<notin> set (map fst acc)" using Cons.prems by auto
  have "obj_define (fst e) (snd e) acc = acc @ [e]"
    using obj_define_new [OF new, of "snd e"] by simp
  moreover have "distinct (map fst ((acc @ [e]) @ es))" using Cons.prems by simp
  ultimately show ?case using Cons.IH [of "acc @ [e]"] by simp
qed

lemma fromEntries_distinct: "distinct (map fst es) \<Longrightarrow> fromEntries es = es"
  using foldl_obj_define_distinct [of "[]" es] by (simp add: fromEntries_def)

lemma entries_plain: "\<forall>p \<in> set m. \<not> is_array_index (fst p) \<Longrightarrow> entries m = m"
  by (simp add: entries_def filter_empty_conv)

lemma set_entries: "set (entries m) = set m"
  by (auto simp: entries_def)

lemma distinct_entries: "distinct (map fst m) \<Longrightarrow> distinct (map fst (entries m))"
  by (auto simp: entries_def distinct_map_filter distinct_map inj_on_def)

lemma distinct_slice_last: "distinct (map f xs) \<Longrightarrow> distinct (map f (slice_last n xs))"
  by (simp add: slice_last_def drop_map [symmetric])

lemma fresh_iff_not_expired:
  "timestamp (snd p) \<noteq> Some 0 \<Longrightarrow> fresh now p = (\<not> spec_expired now (snd p))"
  by (auto simp: fresh_def spec_expired_def timestamp_or_def MAX_STORAGE_AGE_MS_def
           split: option.splits)

lemma set_obj_set: "set (obj_set k v m) \<subseteq> insert (k, v) (set m)"
  using set_obj_define [of k v m] by (auto simp: obj_set_def)

lemma spec_evict_fresh:
  assumes "\<forall>q \<in> set es. timestamp (snd q) \<noteq> Some 0"
  shows "slice_last MAX_STORAGE_SIZE (filter (fresh now) es) = spec_evict now es"
proof -
  have "filter (fresh now) es = filter (\<lambda>q. \<not> spec_expired now (snd q)) es"
    using assms by (intro filter_cong refl) (simp add: fresh_iff_not_expired)
  then show ?thesis by (simp add: spec_evict_def MAX_STORAGE_SIZE_def)
qed

lemma saveMessage_eq:
  assumes "unique_ids (stored file)"
  shows "saveMessage ident d stamp now file =
     Wrapped (slice_last MAX_STORAGE_SIZE (filter (fresh now)
        (entries (obj_set ident (d\<lparr>timestamp := Some stamp\<rparr>) (stored file)))))"
proof -
  let ?m = "obj_set ident (d\<lparr>timestamp := Some stamp\<rparr>) (stored file)"
  have "distinct (map fst ?m)"
    using assms by (simp add: unique_ids_def obj_set_distinct)
  then have "distinct (map fst (entries ?m))" by (rule distinct_entries)
  then have "distinct (map fst (filter (fresh now) (entries ?m)))"
    by (simp add: distinct_map_filter)
  then have "distinct (map fst (slice_last MAX_STORAGE_SIZE (filter (fresh now) (entries ?m))))"
    by (rule distinct_slice_last)
  then show ?thesis
    by (simp add: saveMessage_def stored_def Let_def fromEntries_distinct)
qed

lemma saveMessage_evicts:
  assumes u: "unique_ids (stored file)" and z: "dated (stored file)" and s: "stamp \<noteq> 0"
  shows "saveMessage ident d stamp now file =
     Wrapped (spec_evict now
        (entries (obj_set ident (d\<lparr>timestamp := Some stamp\<rparr>) (stored file))))"
proof -
  let ?m = "obj_set ident (d\<lparr>timestamp := Some stamp\<rparr>) (stored file)"
  have sub: "set ?m \<subseteq> insert (ident, d\<lparr>timestamp := Some stamp\<rparr>) (set (stored file))"
    by (rule set_obj_set)
  have "\<forall>q \<in> set ?m. timestamp (snd q) \<noteq> Some 0"
    using sub z s by (auto simp: dated_def list_all_iff)
  then have "\<forall>q \<in> set (entries ?m). timestamp (snd q) \<noteq> Some 0"
    by (simp add: set_entries)
  then show ?thesis
    using saveMessage_eq [OF u, of ident d stamp now] by (simp add: spec_evict_fresh)
qed

lemma saveMessage_refines:
  assumes u: "unique_ids (stored file)" and p: "plain_ids (stored file)"
    and z: "dated (stored file)" and i: "\<not> is_array_index ident"
    and n: "ident \<noteq> ''__proto__''" and s: "stamp \<noteq> 0"
  shows "saveMessage ident d stamp now file = Wrapped (spec_put ident d stamp now (stored file))"
proof -
  let ?m = "obj_set ident (d\<lparr>timestamp := Some stamp\<rparr>) (stored file)"
  have sub: "set ?m \<subseteq> insert (ident, d\<lparr>timestamp := Some stamp\<rparr>) (set (stored file))"
    by (rule set_obj_set)
  have "\<forall>q \<in> set ?m. \<not> is_array_index (fst q)"
    using sub p i by (auto simp: plain_ids_def list_all_iff)
  then have e: "entries ?m = ?m" by (rule entries_plain)
  have "?m = obj_define ident (d\<lparr>timestamp := Some stamp\<rparr>) (stored file)"
    using n by (simp add: obj_set_define)
  then show ?thesis
    using saveMessage_evicts [OF u z s, of ident d now] e by (simp add: spec_put_def)
qed

lemma length_slice_last: "length (slice_last n xs) \<le> n"
  by (simp add: slice_last_def)


lemma slice_last_slice_last_append:
  "slice_last n (slice_last n xs @ ys) = slice_last n (xs @ ys)"
proof (cases "length xs \<le> n")
  case True
  then show ?thesis by (simp add: slice_last_def)
next
  case False
  define k where "k = length xs - n"
  have k: "k \<le> length xs" and len: "length xs - k = n" and tot: "length xs + length ys - n = length ys + k"
    using False by (simp_all add: k_def)
  have "drop k xs @ ys = drop k (xs @ ys)" using k by simp
  then have "slice_last n (drop k xs @ ys) = drop (length ys) (drop k (xs @ ys))"
    using len by (simp add: slice_last_def)
  also have "\<dots> = drop (length ys + k) (xs @ ys)" by (simp only: drop_drop)
  finally show ?thesis using tot by (simp add: slice_last_def k_def)
qed

lemma fresh_stamped: "now - stamp \<le> MAX_STORAGE_AGE_MS \<Longrightarrow> fresh now (i, d\<lparr>timestamp := Some stamp\<rparr>)"
  by (simp add: fresh_def timestamp_or_def MAX_STORAGE_AGE_MS_def)

lemma save_all_plain:
  assumes "length m \<le> 100"
    and "distinct (map fst m @ map (fst \<circ> op_entry) ops)"
    and "plain_ids (m @ map op_entry ops)"
    and "\<forall>x \<in> set ops. \<forall>p \<in> set m \<union> op_entry ` set ops. fresh (op_now x) p"
    and "''__proto__'' \<notin> set (map (fst \<circ> op_entry) ops)"
  shows "stored (save_all ops (Wrapped m)) = slice_last 100 (m @ map op_entry ops)"
  using assms
proof (induction ops arbitrary: m)
  case Nil
  then show ?case by (simp add: stored_def slice_last_def)
next
  case (Cons x ops)
  obtain i d t n where o: "x = (i, d, t, n)" by (cases x)
  let ?e = "(i, d\<lparr>timestamp := Some t\<rparr>)"
  let ?m' = "slice_last 100 (m @ [?e])"
  have u: "unique_ids (stored (Wrapped m))"
    using Cons.prems(2) by (simp add: unique_ids_def stored_def)
  have new: "i \<notin> set (map fst m)" using Cons.prems(2) o by auto
  have np: "i \<noteq> ''__proto__''" using Cons.prems(5) o by auto
  have set1: "obj_set i (d\<lparr>timestamp := Some t\<rparr>) m = m @ [?e]"
    using new np by (rule obj_set_new)
  have pl: "\<forall>q \<in> set (m @ [?e]). \<not> is_array_index (fst q)"
    using Cons.prems(3) o by (auto simp: plain_ids_def list_all_iff)
  have fr: "\<forall>q \<in> set (m @ [?e]). fresh n q"
    using Cons.prems(4) o by auto
  have step: "saveMessage i d t n (Wrapped m) = Wrapped ?m'"
    using saveMessage_eq [OF u, of i d t n] entries_plain [OF pl] fr
    by (simp add: stored_def set1 MAX_STORAGE_SIZE_def)
  have sub: "set ?m' \<subseteq> set (m @ [?e])"
    by (auto simp: slice_last_def dest: in_set_dropD)
  have d': "distinct (map fst ?m' @ map (fst \<circ> op_entry) ops)"
  proof -
    have "distinct (map fst (m @ [?e]) @ map (fst \<circ> op_entry) ops)"
      using Cons.prems(2) o by (simp add: comp_def)
    then have a: "distinct (map fst (m @ [?e]))" and b: "distinct (map (fst \<circ> op_entry) ops)"
      and c: "set (map fst (m @ [?e])) \<inter> set (map (fst \<circ> op_entry) ops) = {}"
      by (simp_all only: distinct_append) 
    have "distinct (map fst ?m')" using a by (rule distinct_slice_last)
    moreover have "set (map fst ?m') \<subseteq> set (map fst (m @ [?e]))"
      using sub by (metis image_mono set_map)
    ultimately show ?thesis using b c by (simp only: distinct_append) blast
  qed
  have p': "plain_ids (?m' @ map op_entry ops)"
    using Cons.prems(3) o sub by (auto simp: plain_ids_def list_all_iff)
  have f': "\<forall>x \<in> set ops. \<forall>p \<in> set ?m' \<union> op_entry ` set ops. fresh (op_now x) p"
  proof (intro ballI)
    fix o' p assume o': "o' \<in> set ops" and "p \<in> set ?m' \<union> op_entry ` set ops"
    then have "p \<in> set m \<union> op_entry ` set (x # ops)" using sub o by auto
    then show "fresh (op_now o') p" using Cons.prems(4) o' by auto
  qed
  have l': "length ?m' \<le> 100" by (rule length_slice_last)
  have n': "''__proto__'' \<notin> set (map (fst \<circ> op_entry) ops)" using Cons.prems(5) by simp
  have "stored (save_all ops (Wrapped ?m')) = slice_last 100 (?m' @ map op_entry ops)"
    using Cons.IH [OF l' d' p' f' n'] .
  then show ?case
    using step o by (simp add: slice_last_slice_last_append)
qed

subsection \<open>Decimal ids and the concrete stores\<close>

lemma dec_value_snoc: "dec_value (s @ [c]) = 10 * dec_value s + digit_val c"
  by (simp add: dec_value_def)

lemma of_char_digit: "d < 10 \<Longrightarrow> (of_char (char_of (48 + d)) :: int) = 48 + int d"
proof -
  assume "d < 10"
  then have "(of_char (char_of (48 + d)) :: nat) = 48 + d" by simp
  then have "int (of_char (char_of (48 + d))) = int (48 + d)" by (rule arg_cong)
  then show ?thesis by (simp only: of_nat_of_char of_nat_add of_nat_numeral)
qed

lemma digit_char: "d < 10 \<Longrightarrow> digit_val (char_of (48 + d)) = int d \<and> is_digit (char_of (48 + d))"
  by (simp add: digit_val_def is_digit_def of_char_digit)

lemma dec_value_decimal: "dec_value (decimal n) = int n"
proof (induction n rule: decimal.induct)
  case (1 n)
  show ?case
  proof (cases "n < 10")
    case True
    then show ?thesis using digit_char [of n] by (subst decimal.simps) (simp add: dec_value_def)
  next
    case False
    have "n mod 10 < 10" by simp
    then have "digit_val (char_of (48 + n mod 10)) = int (n mod 10)"
      using digit_char by blast
    then have "dec_value (decimal n) = 10 * int (n div 10) + int (n mod 10)"
      using False 1 by (subst decimal.simps) (simp add: dec_value_snoc)
    then show ?thesis by (simp add: zdiv_int zmod_int)
  qed
qed

lemma decimal_not_Nil: "decimal n \<noteq> []"
  by (subst decimal.simps) simp

lemma decimal_digits: "list_all is_digit (decimal n)"
proof (induction n rule: decimal.induct)
  case (1 n)
  show ?case
  proof (cases "n < 10")
    case True
    then show ?thesis using digit_char [of n] by (subst decimal.simps) simp
  next
    case False
    have "n mod 10 < 10" by simp
    then have "is_digit (char_of (48 + n mod 10))" using digit_char by blast
    then show ?thesis using False 1 by (subst decimal.simps) simp
  qed
qed

lemma decimal_no_leading_zero: "0 < n \<Longrightarrow> hd (decimal n) \<noteq> CHR ''0''"
proof (induction n rule: decimal.induct)
  case (1 n)
  show ?case
  proof (cases "n < 10")
    case True
    have "(of_char (hd (decimal n)) :: int) = 48 + int n"
      using True of_char_digit [of n] by (subst decimal.simps) simp
    moreover have "(of_char (CHR ''0'') :: int) = 48" by simp
    ultimately show ?thesis using "1.prems" by (metis add_cancel_right_right of_nat_0_less_iff less_irrefl)
  next
    case False
    then have "0 < n div 10" by simp
    then have "hd (decimal (n div 10)) \<noteq> CHR ''0''" using 1 False by simp
    then show ?thesis
      using False decimal_not_Nil [of "n div 10"] by (subst decimal.simps) simp
  qed
qed

lemma decimal_zero: "decimal 0 = ''0''"
  by code_simp

lemma is_array_index_decimal: "n < 4294967295 \<Longrightarrow> is_array_index (decimal n)"
proof (cases "n = 0")
  case True
  assume "n < 4294967295"
  have "is_digit CHR ''0''" by (simp add: is_digit_def)
  then show ?thesis using True by (simp add: decimal_zero is_array_index_def dec_value_def digit_val_def)
next
  case False
  assume "n < 4294967295"
  then show ?thesis
    using False decimal_no_leading_zero [of n]
    unfolding is_array_index_def
    by (simp only: decimal_not_Nil decimal_digits dec_value_decimal) simp
qed

lemma decimal_inj: "decimal a = decimal b \<Longrightarrow> a = b"
  by (metis dec_value_decimal of_nat_eq_iff)

lemma lettered_plain: "\<not> is_array_index (lettered k)"
  by (simp add: lettered_def is_array_index_def is_digit_def)

lemma lettered_inj: "lettered a = lettered b \<Longrightarrow> a = b"
  by (simp add: lettered_def decimal_inj)

lemma distinct_lettered: "distinct ks \<Longrightarrow> distinct (map lettered ks)"
  by (simp add: distinct_map inj_on_def lettered_inj)

lemma distinct_decimal: "distinct ks \<Longrightarrow> distinct (map decimal ks)"
  by (auto simp: distinct_map inj_on_def decimal_inj)

lemma lettered_store_ids: "map fst (lettered_store ks) = map lettered ks"
  by (simp add: lettered_store_def comp_def)

lemma numbered_store_ids: "map fst (numbered_store ks) = map decimal ks"
  by (simp add: numbered_store_def comp_def)

lemma lettered_ops_ids: "map (fst \<circ> op_entry) (lettered_ops ks) = map lettered ks"
  by (simp add: lettered_ops_def comp_def)

lemma unique_lettered_store: "distinct ks \<Longrightarrow> unique_ids (lettered_store ks)"
  by (simp add: unique_ids_def lettered_store_ids distinct_lettered)

lemma unique_numbered_store: "distinct ks \<Longrightarrow> unique_ids (numbered_store ks)"
  by (simp add: unique_ids_def numbered_store_ids distinct_decimal)

lemma plain_lettered_store: "plain_ids (lettered_store ks)"
  by (simp add: plain_ids_def lettered_store_def list_all_iff lettered_plain)

lemma plain_lettered_ops: "plain_ids (map op_entry (lettered_ops ks))"
  by (simp add: plain_ids_def lettered_ops_def list_all_iff lettered_plain)

lemma dated_lettered_store: "dated (lettered_store ks)"
  by (simp add: dated_def lettered_store_def list_all_iff)

lemma fresh_lettered_store:
  "now - 1000 \<le> MAX_STORAGE_AGE_MS \<Longrightarrow> list_all (fresh now) (lettered_store ks)"
  by (simp add: lettered_store_def list_all_iff fresh_def timestamp_or_def)

lemma fresh_numbered_store:
  "now - 1000 \<le> MAX_STORAGE_AGE_MS \<Longrightarrow> list_all (fresh now) (numbered_store ks)"
  by (simp add: numbered_store_def list_all_iff fresh_def timestamp_or_def)

lemma no_expiry_lettered_ops: "no_expiry (lettered_ops ks)"
  by (simp add: no_expiry_def lettered_ops_def list_all_iff MAX_STORAGE_AGE_MS_def)

lemma foldr_insort_least:
  "\<forall>x \<in> set xs. f y < f x \<Longrightarrow>
   foldr (insort_key f) xs (y # zs) = y # foldr (insort_key f) xs zs"
  by (induction xs) auto

lemma sort_key_snoc_least:
  assumes "sorted (map f xs)" and "\<forall>x \<in> set xs. f y < f x"
  shows "sort_key f (xs @ [y]) = y # xs"
proof -
  have "sort_key f (xs @ [y]) = foldr (insort_key f) xs [y]"
    by (simp add: sort_key_def)
  also have "\<dots> = y # foldr (insort_key f) xs []"
    using assms(2) by (rule foldr_insort_least)
  also have "foldr (insort_key f) xs [] = xs"
    using sort_key_id_if_sorted [OF assms(1)] by (simp add: sort_key_def)
  finally show ?thesis .
qed

lemma numbered_store_index:
  "\<forall>k \<in> set ks. k < 4294967295 \<Longrightarrow> \<forall>p \<in> set (numbered_store ks). is_array_index (fst p)"
  by (auto simp: numbered_store_def is_array_index_decimal)

lemma numbered_store_keys_value:
  "map (\<lambda>p. dec_value (fst p)) (numbered_store ks) = map int ks"
  by (simp add: numbered_store_def comp_def dec_value_decimal)

lemma entries_numbered_store:
  assumes "sorted ks" and "\<forall>k \<in> set ks. k < 4294967295"
  shows "entries (numbered_store ks) = numbered_store ks"
proof -
  have i: "\<forall>p \<in> set (numbered_store ks). is_array_index (fst p)"
    using assms(2) by (rule numbered_store_index)
  have "sorted (map int ks)" using assms(1) by (simp add: sorted_map mono_def monotone_on_def sorted_wrt_iff_nth_less nat_less_le)
  then have "sort_key (\<lambda>p. dec_value (fst p)) (numbered_store ks) = numbered_store ks"
    by (intro sort_key_id_if_sorted) (simp add: numbered_store_keys_value)
  then show ?thesis using i by (simp add: entries_def filter_empty_conv)
qed

lemma zero_not_numbered:
  "\<forall>k \<in> set ks. 0 < k \<Longrightarrow> ''0'' \<notin> set (map fst (numbered_store ks))"
proof
  assume pos: "\<forall>k \<in> set ks. 0 < k" and "''0'' \<in> set (map fst (numbered_store ks))"
  then obtain k where "k \<in> set ks" and "decimal k = decimal 0"
    by (auto simp: numbered_store_ids decimal_zero)
  then show False using pos decimal_inj by blast
qed

lemma save_zero_into_numbered:
  assumes s: "sorted ks" and d: "distinct ks"
    and r: "\<forall>k \<in> set ks. 0 < k \<and> k < 4294967295" and l: "length ks = 100"
    and a: "now - 1000 \<le> MAX_STORAGE_AGE_MS" and b: "now - stamp \<le> MAX_STORAGE_AGE_MS"
  shows "saveMessage ''0'' v stamp now (Wrapped (numbered_store ks)) = Wrapped (numbered_store ks)"
proof -
  let ?N = "numbered_store ks"
  let ?e = "(''0'', v\<lparr>timestamp := Some stamp\<rparr>)"
  let ?g = "\<lambda>p::string \<times> message. dec_value (fst p)"
  have u: "unique_ids (stored (Wrapped ?N))"
    using d by (simp add: stored_def unique_numbered_store)
  have new: "''0'' \<notin> set (map fst ?N)" using r by (intro zero_not_numbered) simp
  have set1: "obj_set ''0'' (v\<lparr>timestamp := Some stamp\<rparr>) ?N = ?N @ [?e]"
    using new by (rule obj_set_new) simp
  have idx: "\<forall>p \<in> set ?N. is_array_index (fst p)"
    using r by (intro numbered_store_index) simp
  have idx0: "is_array_index (fst ?e)"
    using is_array_index_decimal [of 0] by (simp add: decimal_zero)
  have srt: "sorted (map ?g ?N)"
    using s by (simp add: numbered_store_keys_value sorted_map mono_def monotone_on_def
        sorted_wrt_iff_nth_less nat_less_le)
  have "?g ?e = 0" using dec_value_decimal [of 0] by (simp add: decimal_zero)
  moreover have "\<forall>p \<in> set ?N. 0 < ?g p"
    using r by (auto simp: numbered_store_def dec_value_decimal)
  ultimately have least: "\<forall>p \<in> set ?N. ?g ?e < ?g p" by simp
  have "filter (\<lambda>p. is_array_index (fst p)) (?N @ [?e]) = ?N @ [?e]"
    using idx idx0 by (intro filter_True) auto
  moreover have "filter (\<lambda>p. \<not> is_array_index (fst p)) (?N @ [?e]) = []"
    using idx idx0 by (simp add: filter_empty_conv)
  ultimately have ent: "entries (?N @ [?e]) = ?e # ?N"
    using sort_key_snoc_least [OF srt least] by (simp only: entries_def append_Nil2)
  have "\<forall>q \<in> set (?e # ?N). fresh now q"
    using fresh_numbered_store [OF a, of ks] fresh_stamped [OF b] by (simp add: list_all_iff)
  then have fl: "filter (fresh now) (?e # ?N) = ?e # ?N" by (rule filter_True)
  have len: "length ?N = 100" using l by (simp add: numbered_store_def)
  have sl: "slice_last MAX_STORAGE_SIZE (?e # ?N) = ?N"
    using len by (simp add: slice_last_def MAX_STORAGE_SIZE_def)
  show ?thesis
    using saveMessage_eq [OF u, of "''0''" v stamp now]
    unfolding stored_def loadMessages.simps fst_conv set1 ent fl sl .
qed

lemma spec_put_zero_numbered:
  assumes l: "length ks = 99" and r: "\<forall>j \<in> set (k # ks). 0 < j"
  shows "map fst (spec_put ''0'' v 2000 2000 (numbered_store (k # ks))) = map decimal ks @ [''0'']"
proof -
  let ?N = "numbered_store (k # ks)"
  let ?e = "(''0'', v\<lparr>timestamp := Some 2000\<rparr>)"
  have new: "''0'' \<notin> set (map fst ?N)" using r by (rule zero_not_numbered)
  have set1: "obj_define ''0'' (v\<lparr>timestamp := Some 2000\<rparr>) ?N = ?N @ [?e]"
    using new by (rule obj_define_new)
  have "\<forall>q \<in> set (?N @ [?e]). \<not> spec_expired 2000 (snd q)"
    by (auto simp: numbered_store_def spec_expired_def)
  then have fl: "filter (\<lambda>q. \<not> spec_expired 2000 (snd q)) (?N @ [?e]) = ?N @ [?e]"
    by (rule filter_True)
  have "slice_last 100 (?N @ [?e]) = numbered_store ks @ [?e]"
    using l by (simp add: numbered_store_def slice_last_def)
  then show ?thesis
    unfolding spec_put_def spec_evict_def set1 fl by (simp add: numbered_store_ids)
qed

lemma upt_1_101: "sorted [1..<101] \<and> distinct [1..<101] \<and> length [1..<101] = 100
  \<and> (\<forall>k \<in> set [1..<101]. 0 < k \<and> k < 4294967295)"
  by simp

subsection \<open>Eviction on every save\<close>

lemma op_entry_fresh:
  "op_now y - op_stamp x \<le> MAX_STORAGE_AGE_MS \<Longrightarrow> fresh (op_now y) (op_entry x)"
  by (cases x) (simp add: fresh_stamped)

lemma save_all_from_empty:
  assumes d: "distinct (map (fst \<circ> op_entry) ops)"
    and p: "plain_ids (map op_entry ops)"
    and n: "''__proto__'' \<notin> set (map (fst \<circ> op_entry) ops)"
    and f: "no_expiry ops"
  shows "stored (save_all ops (Wrapped [])) = slice_last 100 (map op_entry ops)"
proof -
  have "\<forall>x \<in> set ops. \<forall>q \<in> set [] \<union> op_entry ` set ops. fresh (op_now x) q"
    using f by (auto simp: no_expiry_def list_all_iff intro: op_entry_fresh)
  then show ?thesis
    using save_all_plain [of "[]" ops] d p n by simp
qed

lemma obj_get_absent: "k \<notin> set (map fst m) \<Longrightarrow> obj_get k m = absent k"
  using map_of_None_iff [of m k] by (simp add: obj_get_def)

lemma obj_get_Found: "map_of m k = Some v \<Longrightarrow> obj_get k m = Found v"
  by (simp add: obj_get_def)

lemma absent_plain: "k \<notin> set object_prototype_names \<Longrightarrow> absent k = Null"
  by (simp add: absent_def)

lemma lettered_not_builtin: "lettered k \<notin> set object_prototype_names"
  by (simp add: lettered_def object_prototype_names_def)

lemma lettered_not_proto: "lettered k \<noteq> ''__proto__''"
  by (simp add: lettered_def)

lemma lettered_ops_no_proto: "''__proto__'' \<notin> set (map (fst \<circ> op_entry) (lettered_ops ks))"
  unfolding lettered_ops_ids using lettered_not_proto by (metis (no_types) imageE list.set_map)

text \<open>
  Claim C1, as the code has it.  For a store whose ids are unique and whose timestamps
  are nonzero, the mapping in the file after \<open>saveMessage\<close> is, for every id: the
  entries of the mapping after the write, in enumeration order, without those older than
  24 hours, cut to the last 100.  When moreover no id of the store nor the id being saved
  is a canonical array index, and the id being saved is not \<^verbatim>\<open>__proto__\<close>, the
  enumeration order is the insertion order and the file holds exactly what the
  specification describes.  In particular 101 saves of distinct such ids into the empty
  store, none of which ages out, leave exactly the 100 ids saved last, in the order of
  their saves, and the id saved first is absent.
\<close>

theorem saveMessage_age_then_cap:
  assumes "unique_ids (stored file)" and "dated (stored file)" and "stamp \<noteq> 0"
    and "unique_ids (stored pfile)" and "plain_ids (stored pfile)" and "dated (stored pfile)"
    and "\<not> is_array_index pid" and "pid \<noteq> ''__proto__''" and "pstamp \<noteq> 0"
    and "length ops = 101" and "distinct (map (fst \<circ> op_entry) ops)"
    and "plain_ids (map op_entry ops)"
    and "''__proto__'' \<notin> set (map (fst \<circ> op_entry) ops)"
    and "no_expiry ops"
  shows "saveMessage ident d stamp now file =
       Wrapped (spec_evict now
          (entries (obj_set ident (d\<lparr>timestamp := Some stamp\<rparr>) (stored file))))
    \<and> saveMessage pid pd pstamp pnow pfile = Wrapped (spec_put pid pd pstamp pnow (stored pfile))
    \<and> stored_ids (save_all ops (Wrapped [])) = tl (map (fst \<circ> op_entry) ops)
    \<and> length (stored_ids (save_all ops (Wrapped []))) = 100
    \<and> getMessage (fst (op_entry (hd ops))) (save_all ops (Wrapped []))
        = absent (fst (op_entry (hd ops)))"
proof -
  have zero: "saveMessage ident d stamp now file =
       Wrapped (spec_evict now
          (entries (obj_set ident (d\<lparr>timestamp := Some stamp\<rparr>) (stored file))))"
    using assms(1-3) by (rule saveMessage_evicts)
  have one: "saveMessage pid pd pstamp pnow pfile
      = Wrapped (spec_put pid pd pstamp pnow (stored pfile))"
    using assms(4-9) by (rule saveMessage_refines)
  have st: "stored (save_all ops (Wrapped [])) = tl (map op_entry ops)"
    using save_all_from_empty [OF assms(11-14)] assms(10) by (simp add: slice_last_def drop_Suc)
  have "set (tl (map op_entry ops)) \<subseteq> set (map op_entry ops)"
    by (cases ops) auto
  then have pl: "\<forall>q \<in> set (tl (map op_entry ops)). \<not> is_array_index (fst q)"
    using assms(12) unfolding plain_ids_def list_all_iff by blast
  have ids: "stored_ids (save_all ops (Wrapped [])) = tl (map (fst \<circ> op_entry) ops)"
    by (simp add: stored_ids_def st entries_plain [OF pl] map_tl)
  have len: "length (stored_ids (save_all ops (Wrapped []))) = 100"
    using assms(10) by (simp add: ids)
  obtain x xs where ops: "ops = x # xs" using assms(10) by (cases ops) auto
  have "fst (op_entry x) \<notin> set (map fst (map op_entry xs))"
    using assms(11) ops by (auto simp: image_iff)
  then have "obj_get (fst (op_entry x)) (map op_entry xs) = absent (fst (op_entry x))"
    by (rule obj_get_absent)
  then have gone: "getMessage (fst (op_entry (hd ops))) (save_all ops (Wrapped []))
      = absent (fst (op_entry (hd ops)))"
    using st ops by (simp add: getMessage_def stored_def [symmetric])
  show ?thesis using zero one ids len gone by simp
qed

text \<open>
  The hypotheses hold for the store with the ids 1, 2, 3 and the save of the id 0, for the
  store with ids j1, j2, j3 and the save of j9, and for the 101 saves of j0 to j100; the
  id j0 then reads as \<^verbatim>\<open>null\<close>.
\<close>

theorem saveMessage_age_then_cap_witness:
  "unique_ids (stored (Wrapped (numbered_store [1..<4])))
   \<and> dated (stored (Wrapped (numbered_store [1..<4]))) \<and> (2000::int) \<noteq> 0
   \<and> unique_ids (stored (Wrapped (lettered_store [1..<4])))
   \<and> plain_ids (stored (Wrapped (lettered_store [1..<4])))
   \<and> dated (stored (Wrapped (lettered_store [1..<4])))
   \<and> \<not> is_array_index (lettered 9) \<and> lettered 9 \<noteq> ''__proto__'' \<and> (3000::int) \<noteq> 0
   \<and> length (lettered_ops [0..<101]) = 101
   \<and> distinct (map (fst \<circ> op_entry) (lettered_ops [0..<101]))
   \<and> plain_ids (map op_entry (lettered_ops [0..<101]))
   \<and> ''__proto__'' \<notin> set (map (fst \<circ> op_entry) (lettered_ops [0..<101]))
   \<and> no_expiry (lettered_ops [0..<101])
   \<and> saveMessage ''0'' (job ''0'') 2000 2000 (Wrapped (numbered_store [1..<4]))
       = Wrapped (spec_evict 2000
           (entries (obj_set ''0'' ((job ''0'')\<lparr>timestamp := Some 2000\<rparr>)
              (stored (Wrapped (numbered_store [1..<4]))))))
   \<and> saveMessage (lettered 9) (job (lettered 9)) 3000 3000 (Wrapped (lettered_store [1..<4]))
       = Wrapped (spec_put (lettered 9) (job (lettered 9)) 3000 3000
                    (stored (Wrapped (lettered_store [1..<4]))))
   \<and> stored_ids (save_all (lettered_ops [0..<101]) (Wrapped []))
       = tl (map (fst \<circ> op_entry) (lettered_ops [0..<101]))
   \<and> length (stored_ids (save_all (lettered_ops [0..<101]) (Wrapped []))) = 100
   \<and> getMessage (fst (op_entry (hd (lettered_ops [0..<101]))))
        (save_all (lettered_ops [0..<101]) (Wrapped []))
       = absent (fst (op_entry (hd (lettered_ops [0..<101]))))
   \<and> absent (fst (op_entry (hd (lettered_ops [0..<101])))) = (Null :: message lookup)"
proof -
  have g1: "unique_ids (stored (Wrapped (numbered_store [1..<4])))"
    by (simp add: stored_def unique_numbered_store)
  have g2: "dated (stored (Wrapped (numbered_store [1..<4])))"
    by (simp add: stored_def dated_def numbered_store_def list_all_iff)
  have g3: "(2000::int) \<noteq> 0" by simp
  have h1: "unique_ids (stored (Wrapped (lettered_store [1..<4])))"
    by (simp add: stored_def unique_lettered_store)
  have h2: "plain_ids (stored (Wrapped (lettered_store [1..<4])))"
    by (simp add: stored_def plain_lettered_store)
  have h3: "dated (stored (Wrapped (lettered_store [1..<4])))"
    by (simp add: stored_def dated_lettered_store)
  have h4: "\<not> is_array_index (lettered 9)" by (rule lettered_plain)
  have h4': "lettered 9 \<noteq> ''__proto__''" by (rule lettered_not_proto)
  have h5: "(3000::int) \<noteq> 0" by simp
  have h6: "length (lettered_ops [0..<101]) = 101" by (simp add: lettered_ops_def)
  have h7: "distinct (map (fst \<circ> op_entry) (lettered_ops [0..<101]))"
    unfolding lettered_ops_ids by (simp add: distinct_lettered)
  have h8: "plain_ids (map op_entry (lettered_ops [0..<101]))" by (rule plain_lettered_ops)
  have h8': "''__proto__'' \<notin> set (map (fst \<circ> op_entry) (lettered_ops [0..<101]))"
    by (rule lettered_ops_no_proto)
  have h9: "no_expiry (lettered_ops [0..<101])" by (rule no_expiry_lettered_ops)
  have "fst (op_entry (hd (lettered_ops [0..<101]))) = lettered 0"
    by (simp add: lettered_ops_def upt_conv_Cons)
  then have nul: "absent (fst (op_entry (hd (lettered_ops [0..<101])))) = (Null :: message lookup)"
    by (simp add: absent_plain lettered_not_builtin)
  note c = saveMessage_age_then_cap [OF g1 g2 g3 h1 h2 h3 h4 h4' h5 h6 h7 h8 h8' h9,
      of "''0''" "job ''0''" 2000 "job (lettered 9)" 3000]
  show ?thesis
    by (intro conjI g1 g2 g3 h1 h2 h3 h4 h4' h5 h6 h7 h8 h8' h9 nul c [THEN conjunct1]
          c [THEN conjunct2, THEN conjunct1] c [THEN conjunct2, THEN conjunct2, THEN conjunct1]
          c [THEN conjunct2, THEN conjunct2, THEN conjunct2, THEN conjunct1]
          c [THEN conjunct2, THEN conjunct2, THEN conjunct2, THEN conjunct2])
qed

text \<open>
  Claim C1 as stated fails in three cases.  A JavaScript object enumerates the keys that
  are canonical array indices first, in ascending numeric order, whatever the order in
  which they were created: with the ids 1 to 100 stored, saving the id 0 puts it first in
  the enumeration, and \<^verbatim>\<open>slice(-100)\<close> drops it at once, so the id saved last is the one
  evicted and the ids 1 to 100 all stay, where insertion order would drop the id 1.  The
  assignment of the id \<^verbatim>\<open>__proto__\<close> creates no entry, so that id is not in the file after
  its save.  And an entry whose timestamp is the number zero counts as written now: it
  stays in the file although its age exceeds 24 hours.
\<close>

theorem saveMessage_eviction_counterexample:
  "getMessage ''0'' (saveMessage ''0'' (job ''0'') 2000 2000 (Wrapped (numbered_store [1..<101])))
     = Null
   \<and> stored_ids (saveMessage ''0'' (job ''0'') 2000 2000 (Wrapped (numbered_store [1..<101])))
       = map decimal [1..<101]
   \<and> map fst (spec_put ''0'' (job ''0'') 2000 2000 (numbered_store [1..<101]))
       = map decimal [2..<101] @ [''0'']
   \<and> stored_ids (saveMessage ''__proto__'' (job ''__proto__'') 2000 2000 (Wrapped [])) = []
   \<and> map fst (spec_put ''__proto__'' (job ''__proto__'') 2000 2000 []) = [''__proto__'']
   \<and> stored_ids (saveMessage ''a'' (job ''a'') 1000000000 1000000000
                    (Wrapped [(''z'', (job ''z'')\<lparr>timestamp := Some 0\<rparr>)])) = [''z'', ''a'']
   \<and> spec_expired 1000000000 ((job ''z'')\<lparr>timestamp := Some 0\<rparr>)
   \<and> map fst (spec_put ''a'' (job ''a'') 1000000000 1000000000
                 [(''z'', (job ''z'')\<lparr>timestamp := Some 0\<rparr>)]) = [''a'']"
proof -
  let ?N = "numbered_store [1..<101]"
  have ma: "(2000::int) - 1000 \<le> MAX_STORAGE_AGE_MS" "(2000::int) - 2000 \<le> MAX_STORAGE_AGE_MS"
    by (simp_all add: MAX_STORAGE_AGE_MS_def)
  have sv: "saveMessage ''0'' (job ''0'') 2000 2000 (Wrapped ?N) = Wrapped ?N"
    using upt_1_101 ma by (intro save_zero_into_numbered) simp_all
  have new: "''0'' \<notin> set (map fst ?N)" by (intro zero_not_numbered) simp
  then have "obj_get ''0'' ?N = absent ''0''" by (rule obj_get_absent)
  then have c1: "getMessage ''0'' (Wrapped ?N) = Null"
    by (simp add: getMessage_def absent_def object_prototype_names_def)
  have c2: "stored_ids (Wrapped ?N) = map decimal [1..<101]"
    using entries_numbered_store [of "[1..<101]"]
    by (simp add: stored_ids_def stored_def numbered_store_ids)
  have e: "[1..<101] = (1::nat) # [2..<101]" by (simp add: upt_conv_Cons)
  have "length [2..<101] = 99 \<and> (\<forall>k \<in> set (1 # [2..<101]). 0 < k)" by simp
  then have "map fst (spec_put ''0'' (job ''0'') 2000 2000 (numbered_store (1 # [2..<101])))
      = map decimal [2..<101] @ [''0'']"
    by (intro spec_put_zero_numbered) simp_all
  then have c3: "map fst (spec_put ''0'' (job ''0'') 2000 2000 ?N) = map decimal [2..<101] @ [''0'']"
    unfolding e .
  have c4: "stored_ids (saveMessage ''__proto__'' (job ''__proto__'') 2000 2000 (Wrapped [])) = []"
    by (simp add: stored_ids_def stored_def saveMessage_def obj_set_def entries_def
          slice_last_def fromEntries_def)
  have c5: "map fst (spec_put ''__proto__'' (job ''__proto__'') 2000 2000 []) = [''__proto__'']"
    by (simp add: spec_put_def spec_evict_def spec_expired_def slice_last_def)
  have ia: "\<not> is_array_index ''z''" "\<not> is_array_index ''a''"
    by (simp_all add: is_array_index_def is_digit_def)
  have c6: "stored_ids (saveMessage ''a'' (job ''a'') 1000000000 1000000000
                    (Wrapped [(''z'', (job ''z'')\<lparr>timestamp := Some 0\<rparr>)])) = [''z'', ''a'']"
    using ia
    by (simp add: stored_ids_def stored_def saveMessage_def obj_set_def entries_def
          slice_last_def fromEntries_def fresh_def timestamp_or_def MAX_STORAGE_AGE_MS_def
          MAX_STORAGE_SIZE_def)
  have c7: "spec_expired 1000000000 ((job ''z'')\<lparr>timestamp := Some 0\<rparr>)"
    by (simp add: spec_expired_def)
  have c8: "map fst (spec_put ''a'' (job ''a'') 1000000000 1000000000
                 [(''z'', (job ''z'')\<lparr>timestamp := Some 0\<rparr>)]) = [''a'']"
    by (simp add: spec_put_def spec_evict_def spec_expired_def slice_last_def)
  show ?thesis unfolding sv using c1 c2 c3 c4 c5 c6 c7 c8 by (intro conjI)
qed

subsection \<open>A save followed by a read\<close>

lemma entries_append_plain:
  "\<not> is_array_index (fst e) \<Longrightarrow> entries (m @ [e]) = entries m @ [e]"
  by (simp add: entries_def)

lemma last_in_slice_last: "xs \<noteq> [] \<Longrightarrow> 0 < n \<Longrightarrow> last xs \<in> set (slice_last n xs)"
proof -
  assume xs: "xs \<noteq> []" and n: "0 < n"
  then have "length xs - n < length xs" by (cases xs) auto
  then have "drop (length xs - n) xs \<noteq> []" by simp
  then have "last (drop (length xs - n) xs) \<in> set (drop (length xs - n) xs)"
    by (rule last_in_set)
  then show ?thesis using \<open>length xs - n < length xs\<close> by (simp add: slice_last_def)
qed

lemma slice_last_all: "length xs \<le> n \<Longrightarrow> slice_last n xs = xs"
  by (simp add: slice_last_def)




lemma obj_define_length_old: "k \<in> set (map fst m) \<Longrightarrow> length (obj_define k v m) = length m"
  by (induction m) force+

lemma obj_set_length_old: "k \<in> set (map fst m) \<Longrightarrow> length (obj_set k v m) = length m"
  by (simp add: obj_set_define obj_define_length_old)

lemma obj_define_mem: "(k, v) \<in> set (obj_define k v m)"
  by (induction m) auto
























subsection \<open>An update keeps the entry's place\<close>

lemma map_fst_insort_key:
  "map fst (insort_key (\<lambda>p. f (fst p)) x xs) = insort_key f (fst x) (map fst xs)"
  by (induction xs) auto

lemma map_fst_sort_key:
  "map fst (sort_key (\<lambda>p. f (fst p)) xs) = sort_key f (map fst xs)"
  by (induction xs) (simp_all add: map_fst_insort_key)

lemma keys_entries:
  "map fst (entries m)
     = sort_key dec_value (filter is_array_index (map fst m))
       @ filter (\<lambda>k. \<not> is_array_index k) (map fst m)"
  by (simp add: entries_def map_fst_sort_key filter_map comp_def)

lemma keys_entries_obj_set:
  "k \<in> set (map fst m) \<Longrightarrow> map fst (entries (obj_set k v m)) = map fst (entries m)"
  by (simp only: keys_entries obj_set_keys_old)

lemma length_entries: "length (entries m) = length m"
  by (simp add: entries_def sum_length_filter_compl)

lemma filter_all: "list_all P xs \<Longrightarrow> filter P xs = xs"
  by (simp add: list_all_iff)

lemma saveMessage_no_eviction:
  assumes u: "unique_ids (stored file)" and k: "ident \<in> set (map fst (stored file))"
    and l: "length (stored file) \<le> 100" and f: "list_all (fresh now) (stored file)"
    and a: "now - stamp \<le> MAX_STORAGE_AGE_MS"
  shows "stored (saveMessage ident d stamp now file)
     = entries (obj_set ident (d\<lparr>timestamp := Some stamp\<rparr>) (stored file))"
proof -
  let ?m = "obj_set ident (d\<lparr>timestamp := Some stamp\<rparr>) (stored file)"
  have "\<forall>q \<in> set ?m. fresh now q"
    using set_obj_set [of ident "d\<lparr>timestamp := Some stamp\<rparr>" "stored file"] f fresh_stamped [OF a]
    by (auto simp: list_all_iff)
  then have "filter (fresh now) (entries ?m) = entries ?m"
    by (simp add: set_entries)
  moreover have "length (entries ?m) \<le> 100"
    using l obj_set_length_old [OF k] by (simp add: length_entries)
  ultimately show ?thesis
    by (simp add: saveMessage_eq [OF u] stored_def slice_last_all MAX_STORAGE_SIZE_def)
qed

lemma entries_entries: "entries (entries m) = entries m"
proof -
  let ?g = "\<lambda>p::string \<times> 'a. dec_value (fst p)"
  let ?I = "\<lambda>p::string \<times> 'a. is_array_index (fst p)"
  let ?S = "sort_key ?g (filter ?I m)"
  let ?N = "filter (\<lambda>p. \<not> ?I p) m"
  have s1: "filter ?I ?S = ?S" by (simp add: filter_sort [symmetric])
  have s2: "filter (\<lambda>p. \<not> ?I p) ?S = []" by (simp add: filter_empty_conv)
  have n1: "filter ?I ?N = []" by (simp add: filter_empty_conv)
  have n2: "filter (\<lambda>p. \<not> ?I p) ?N = ?N" by simp
  have ss: "sort_key ?g ?S = ?S"
    by (rule sort_key_id_if_sorted) (rule sorted_sort_key)
  have "entries (?S @ ?N) = ?S @ ?N"
    unfolding entries_def [of "?S @ ?N"] filter_append s1 s2 n1 n2 by (simp add: ss)
  then show ?thesis by (simp add: entries_def [of m])
qed

text \<open>
  Claim C10.  Saving an id the store already holds replaces the record and leaves the
  enumeration order of the ids as it was: the entry keeps the place of its first
  insertion.  So the size cap ranks it by first insertion: in a store of 100 ids, none
  an array index and none ageing out, updating the first id and then saving one new id
  evicts the id just updated, while every id first inserted after it stays.  (The new
  id is not \<^verbatim>\<open>__proto__\<close>, whose save creates no entry; the evicted id then reads as any
  missing key does.)
\<close>

theorem update_keeps_position:
  assumes "unique_ids (stored file)" and "ident \<in> set (stored_ids file)"
    and "length (stored file) \<le> 100" and "list_all (fresh now) (stored file)"
    and "now - stamp \<le> MAX_STORAGE_AGE_MS"
    and "length m = 100" and "unique_ids m" and "plain_ids m"
    and "\<not> is_array_index b" and "b \<notin> set (map fst m)" and "b \<noteq> ''__proto__''"
    and "list_all (fresh na) m" and "list_all (fresh nb) m"
    and "na - ta \<le> MAX_STORAGE_AGE_MS" and "nb - ta \<le> MAX_STORAGE_AGE_MS"
    and "nb - tb \<le> MAX_STORAGE_AGE_MS"
  shows "stored_ids (saveMessage ident d stamp now file) = stored_ids file
    \<and> getMessage ident (saveMessage ident d stamp now file) = Found (d\<lparr>timestamp := Some stamp\<rparr>)
    \<and> stored_ids (saveMessage b db tb nb (saveMessage (fst (hd m)) da ta na (Wrapped m)))
        = map fst (tl m) @ [b]
    \<and> getMessage (fst (hd m)) (saveMessage b db tb nb (saveMessage (fst (hd m)) da ta na (Wrapped m)))
        = absent (fst (hd m))"
proof -
  have k: "ident \<in> set (map fst (stored file))"
    using assms(2) by (simp add: stored_ids_def set_entries)
  let ?m = "obj_set ident (d\<lparr>timestamp := Some stamp\<rparr>) (stored file)"
  have st: "stored (saveMessage ident d stamp now file) = entries ?m"
    using assms(1) k assms(3-5) by (rule saveMessage_no_eviction)
  have p1: "stored_ids (saveMessage ident d stamp now file) = stored_ids file"
    by (simp add: stored_ids_def st entries_entries keys_entries_obj_set [OF k])
  have "distinct (map fst (entries ?m))"
    using assms(1) by (simp add: unique_ids_def obj_set_distinct distinct_entries)
  moreover have "(ident, d\<lparr>timestamp := Some stamp\<rparr>) \<in> set (entries ?m)"
    using k by (simp add: set_entries obj_set_define obj_define_mem)
  ultimately have "map_of (entries ?m) ident = Some (d\<lparr>timestamp := Some stamp\<rparr>)"
    by (rule map_of_is_SomeI)
  then have p2: "getMessage ident (saveMessage ident d stamp now file)
      = Found (d\<lparr>timestamp := Some stamp\<rparr>)"
    using st by (simp add: getMessage_def obj_get_def stored_def)
  obtain a r rest where m: "m = (a, r) # rest"
    using assms(6) by (cases m) auto
  let ?e1 = "(a, da\<lparr>timestamp := Some ta\<rparr>)"
  let ?e2 = "(b, db\<lparr>timestamp := Some tb\<rparr>)"
  let ?f0 = "Wrapped ((a, r) # rest)"
  have u0: "unique_ids (stored ?f0)" using assms(7) m by (simp add: stored_def)
  have pl1: "\<forall>q \<in> set (?e1 # rest). \<not> is_array_index (fst q)"
    using assms(8) m by (auto simp: plain_ids_def list_all_iff)
  have "stored (saveMessage a da ta na ?f0)
      = entries (obj_set a (da\<lparr>timestamp := Some ta\<rparr>) (stored ?f0))"
    using u0 _ _ _ assms(14)
    by (rule saveMessage_no_eviction) (use assms(6,12) m in \<open>simp_all add: stored_def\<close>)
  moreover have "obj_set a (da\<lparr>timestamp := Some ta\<rparr>) ((a, r) # rest) = ?e1 # rest"
    by (simp add: obj_set_def)
  ultimately have s1: "stored (saveMessage a da ta na ?f0) = ?e1 # rest"
    using entries_plain [OF pl1] by (simp add: stored_def)
  let ?f1 = "saveMessage a da ta na ?f0"
  have u1: "unique_ids (stored ?f1)"
    using assms(7) m by (simp add: s1 unique_ids_def)
  have new: "b \<notin> set (map fst (?e1 # rest))" using assms(10) m by simp
  have set2: "obj_set b (db\<lparr>timestamp := Some tb\<rparr>) (?e1 # rest) = (?e1 # rest) @ [?e2]"
    using new assms(11) by (rule obj_set_new)
  have pl2: "\<forall>q \<in> set ((?e1 # rest) @ [?e2]). \<not> is_array_index (fst q)"
    using pl1 assms(9) by auto
  have fr2: "\<forall>q \<in> set ((?e1 # rest) @ [?e2]). fresh nb q"
    using assms(13) m fresh_stamped [OF assms(15)] fresh_stamped [OF assms(16)]
    by (auto simp: list_all_iff)
  have fl2: "filter (fresh nb) ((?e1 # rest) @ [?e2]) = (?e1 # rest) @ [?e2]"
    using fr2 by (rule filter_True)
  have "saveMessage b db tb nb ?f1
      = Wrapped (slice_last MAX_STORAGE_SIZE ((?e1 # rest) @ [?e2]))"
    using saveMessage_eq [OF u1, of b db tb nb]
    unfolding s1 set2 entries_plain [OF pl2] fl2 .
  then have s2: "saveMessage b db tb nb ?f1 = Wrapped (rest @ [?e2])"
    using assms(6) m by (simp add: slice_last_def MAX_STORAGE_SIZE_def)
  have pl3: "\<forall>q \<in> set (rest @ [?e2]). \<not> is_array_index (fst q)"
    using pl2 by auto
  have p3: "stored_ids (saveMessage b db tb nb ?f1) = map fst rest @ [b]"
    by (simp add: s2 stored_ids_def stored_def entries_plain [OF pl3])
  have "a \<notin> set (map fst (rest @ [?e2]))"
    using assms(7,10) m by (auto simp: unique_ids_def image_iff)
  then have "obj_get a (rest @ [?e2]) = absent a" by (rule obj_get_absent)
  then have p4: "getMessage a (saveMessage b db tb nb ?f1) = absent a"
    by (simp add: s2 getMessage_def)
  show ?thesis using p1 p2 p3 p4 m by simp
qed

text \<open>
  The hypotheses hold for the store j1, j2, j3 with j2 updated, and for the store j1 to
  j100 with j1 updated and j0 saved after it; j1 then reads as \<^verbatim>\<open>null\<close>.
\<close>

theorem update_keeps_position_witness:
  "unique_ids (stored (Wrapped (lettered_store [1..<4])))
   \<and> lettered 2 \<in> set (stored_ids (Wrapped (lettered_store [1..<4])))
   \<and> length (stored (Wrapped (lettered_store [1..<4]))) \<le> 100
   \<and> list_all (fresh 2000) (stored (Wrapped (lettered_store [1..<4])))
   \<and> (2000::int) - 1500 \<le> MAX_STORAGE_AGE_MS
   \<and> length (lettered_store [1..<101]) = 100
   \<and> unique_ids (lettered_store [1..<101])
   \<and> plain_ids (lettered_store [1..<101])
   \<and> \<not> is_array_index (lettered 0)
   \<and> lettered 0 \<notin> set (map fst (lettered_store [1..<101]))
   \<and> lettered 0 \<noteq> ''__proto__''
   \<and> list_all (fresh 2000) (lettered_store [1..<101])
   \<and> list_all (fresh 3000) (lettered_store [1..<101])
   \<and> (2000::int) - 1900 \<le> MAX_STORAGE_AGE_MS
   \<and> (3000::int) - 1900 \<le> MAX_STORAGE_AGE_MS
   \<and> (3000::int) - 2900 \<le> MAX_STORAGE_AGE_MS
   \<and> stored_ids (saveMessage (lettered 2) (job ''new'') 1500 2000 (Wrapped (lettered_store [1..<4])))
       = stored_ids (Wrapped (lettered_store [1..<4]))
   \<and> getMessage (lettered 2)
        (saveMessage (lettered 2) (job ''new'') 1500 2000 (Wrapped (lettered_store [1..<4])))
       = Found ((job ''new'')\<lparr>timestamp := Some 1500\<rparr>)
   \<and> stored_ids (saveMessage (lettered 0) (job ''late'') 2900 3000
         (saveMessage (fst (hd (lettered_store [1..<101]))) (job ''upd'') 1900 2000
            (Wrapped (lettered_store [1..<101]))))
       = map fst (tl (lettered_store [1..<101])) @ [lettered 0]
   \<and> getMessage (fst (hd (lettered_store [1..<101])))
        (saveMessage (lettered 0) (job ''late'') 2900 3000
         (saveMessage (fst (hd (lettered_store [1..<101]))) (job ''upd'') 1900 2000
            (Wrapped (lettered_store [1..<101]))))
       = absent (fst (hd (lettered_store [1..<101])))
   \<and> absent (fst (hd (lettered_store [1..<101]))) = (Null :: message lookup)"
proof -
  have ages: "(2000::int) - 1000 \<le> MAX_STORAGE_AGE_MS" "(3000::int) - 1000 \<le> MAX_STORAGE_AGE_MS"
    by (simp_all add: MAX_STORAGE_AGE_MS_def)
  have h1: "unique_ids (stored (Wrapped (lettered_store [1..<4])))"
    by (simp add: stored_def unique_lettered_store)
  have h2: "lettered 2 \<in> set (stored_ids (Wrapped (lettered_store [1..<4])))"
    by (simp add: stored_ids_def stored_def lettered_store_ids
        entries_plain plain_lettered_store [unfolded plain_ids_def list_all_iff])
  have h3: "length (stored (Wrapped (lettered_store [1..<4]))) \<le> 100"
    by (simp add: stored_def lettered_store_def)
  have h4: "list_all (fresh 2000) (stored (Wrapped (lettered_store [1..<4])))"
    using ages(1) by (simp add: stored_def fresh_lettered_store)
  have h5: "(2000::int) - 1500 \<le> MAX_STORAGE_AGE_MS" by (simp add: MAX_STORAGE_AGE_MS_def)
  have h6: "length (lettered_store [1..<101]) = 100" by (simp add: lettered_store_def)
  have h7: "unique_ids (lettered_store [1..<101])" by (simp add: unique_lettered_store)
  have h8: "plain_ids (lettered_store [1..<101])" by (rule plain_lettered_store)
  have h9: "\<not> is_array_index (lettered 0)" by (rule lettered_plain)
  have h10: "lettered 0 \<notin> set (map fst (lettered_store [1..<101]))"
  proof
    assume "lettered 0 \<in> set (map fst (lettered_store [1..<101]))"
    then have "lettered 0 \<in> lettered ` {1..<101}"
      by (simp only: lettered_store_ids set_map set_upt)
    then obtain k where "k \<in> {1..<101}" and "lettered 0 = lettered k" by blast
    then show False using lettered_inj [of 0 k] by simp
  qed
  have h10': "lettered 0 \<noteq> ''__proto__''" by (rule lettered_not_proto)
  have "fst (hd (lettered_store [1..<101])) = lettered 1"
    by (simp add: lettered_store_def upt_conv_Cons)
  then have nul: "absent (fst (hd (lettered_store [1..<101]))) = (Null :: message lookup)"
    by (simp add: absent_plain lettered_not_builtin)
  have h11: "list_all (fresh 2000) (lettered_store [1..<101])"
    using ages(1) by (rule fresh_lettered_store)
  have h12: "list_all (fresh 3000) (lettered_store [1..<101])"
    using ages(2) by (rule fresh_lettered_store)
  have h13: "(2000::int) - 1900 \<le> MAX_STORAGE_AGE_MS" by (simp add: MAX_STORAGE_AGE_MS_def)
  have h14: "(3000::int) - 1900 \<le> MAX_STORAGE_AGE_MS" by (simp add: MAX_STORAGE_AGE_MS_def)
  have h15: "(3000::int) - 2900 \<le> MAX_STORAGE_AGE_MS" by (simp add: MAX_STORAGE_AGE_MS_def)
  note c = update_keeps_position [OF h1 h2 h3 h4 h5 h6 h7 h8 h9 h10 h10' h11 h12 h13 h14 h15,
      where d = "job ''new''" and db = "job ''late''" and da = "job ''upd''"]
  show ?thesis
    by (intro conjI h1 h2 h3 h4 h5 h6 h7 h8 h9 h10 h10' h11 h12 h13 h14 h15 nul c [THEN conjunct1]
          c [THEN conjunct2, THEN conjunct1] c [THEN conjunct2, THEN conjunct2, THEN conjunct1]
          c [THEN conjunct2, THEN conjunct2, THEN conjunct2])
qed

section \<open>The retrying call and the session: properties\<close>

lemma attempts_trace_1: "attempts_trace p d 1 = [CustomCalled p]"
  by (simp add: attempts_trace_def)
lemma attempts_trace_2: "attempts_trace p d 2 = [CustomCalled p, Waited d, CustomCalled p]"
  by (simp add: attempts_trace_def upt_rec)
lemma attempts_trace_3:
  "attempts_trace p d 3 = [CustomCalled p, Waited d, CustomCalled p, Waited d, CustomCalled p]"
  by (simp add: attempts_trace_def upt_rec)

lemma safeCall_unroll:
  "safeCall e p w =
     (case custom_result e (custom_calls w) p of
        Returns r \<Rightarrow> (Inr r, w\<lparr>custom_calls := custom_calls w + 1,
                               trace := trace w @ attempts_trace p 3000 1\<rparr>)
      | Raises e0 \<Rightarrow>
         (case custom_result e (custom_calls w + 1) p of
            Returns r \<Rightarrow> (Inr r, w\<lparr>custom_calls := custom_calls w + 2,
                                   trace := trace w @ attempts_trace p 3000 2\<rparr>)
          | Raises e1 \<Rightarrow>
             (case custom_result e (custom_calls w + 2) p of
                Returns r \<Rightarrow> (Inr r, w\<lparr>custom_calls := custom_calls w + 3,
                                       trace := trace w @ attempts_trace p 3000 3\<rparr>)
              | Raises e2 \<Rightarrow> (Inl e2, w\<lparr>custom_calls := custom_calls w + 3,
                                       trace := trace w @ attempts_trace p 3000 3\<rparr>))))"
  unfolding safeCall_def
  by (subst safeCall_loop.simps, subst safeCall_loop.simps, subst safeCall_loop.simps)
     (simp add: Let_def log_event_def wait_def attempts_trace_def upt_rec
           split: outcome.splits)

text \<open>
  Claim C2.  \<open>safeCall\<close> calls \<^verbatim>\<open>mj.Custom\<close> at least once and at most three times, with
  a wait of 3000 ms after every failed attempt but the last and nothing else done.
  Every attempt before the last one raised, whatever the error.  When the last attempt
  returned, \<open>safeCall\<close> returns that result; when it raised, it was the third attempt
  and \<open>safeCall\<close> raises that same error to its caller.
\<close>

theorem safeCall_three_attempts:
  "(let w' = snd (safeCall e p w); n = custom_calls w' - custom_calls w in
      1 \<le> n \<and> n \<le> 3
      \<and> w' = w\<lparr>custom_calls := custom_calls w + n,
                trace := trace w @ attempts_trace p 3000 n\<rparr>
      \<and> list_all (\<lambda>j. raises (custom_result e (custom_calls w + j) p)) [0..<n - 1]
      \<and> (case custom_result e (custom_calls w + (n - 1)) p of
            Returns r \<Rightarrow> fst (safeCall e p w) = Inr r
          | Raises err \<Rightarrow> n = 3 \<and> fst (safeCall e p w) = Inl err))"
proof (cases "custom_result e (custom_calls w) p")
  case (Returns r)
  then show ?thesis by (simp add: safeCall_unroll Let_def)
next
  case r0: (Raises e0)
  show ?thesis
  proof (cases "custom_result e (custom_calls w + 1) p")
    case (Returns r)
    then show ?thesis using r0 by (simp add: safeCall_unroll Let_def raises_def)
  next
    case r1: (Raises e1)
    show ?thesis
    proof (cases "custom_result e (custom_calls w + 2) p")
      case (Returns r)
      then show ?thesis
        using r0 r1 by (simp add: safeCall_unroll Let_def raises_def upt_rec numeral_2_eq_2)
    next
      case (Raises e2)
      then show ?thesis
        using r0 r1 by (simp add: safeCall_unroll Let_def raises_def upt_rec numeral_2_eq_2)
    qed
  qed
qed

lemma init_loop_unroll:
  "init_loop e 0 w =
     (case init_result e (init_calls w) of
        Returns u \<Rightarrow> (Inr (), w\<lparr>init_calls := init_calls w + 1,
                                trace := trace w @ init_trace 1, mjInitialized := True\<rparr>)
      | Raises e0 \<Rightarrow>
         if err_code e0 \<noteq> Some ''ENOTFOUND''
         then (Inl e0, w\<lparr>init_calls := init_calls w + 1, trace := trace w @ init_trace 1\<rparr>)
         else
         (case init_result e (init_calls w + 1) of
            Returns u \<Rightarrow> (Inr (), w\<lparr>init_calls := init_calls w + 2,
                                    trace := trace w @ init_trace 2, mjInitialized := True\<rparr>)
          | Raises e1 \<Rightarrow>
             if err_code e1 \<noteq> Some ''ENOTFOUND''
             then (Inl e1, w\<lparr>init_calls := init_calls w + 2, trace := trace w @ init_trace 2\<rparr>)
             else
             (case init_result e (init_calls w + 2) of
                Returns u \<Rightarrow> (Inr (), w\<lparr>init_calls := init_calls w + 3,
                                        trace := trace w @ init_trace 3, mjInitialized := True\<rparr>)
              | Raises e2 \<Rightarrow> (Inl e2, w\<lparr>init_calls := init_calls w + 3,
                                        trace := trace w @ init_trace 3\<rparr>))))"
  by (subst init_loop.simps, subst init_loop.simps, subst init_loop.simps)
     (simp add: Let_def log_event_def wait_def init_trace_def upt_rec maxRetries_def baseDelay_def
           split: outcome.splits)

lemma connect_from_uninitialized:
  assumes "\<not> mjInitialized w"
  shows "(let w' = snd (initializeMidjourney e w); n = init_calls w' - init_calls w in
      1 \<le> n \<and> n \<le> 3
      \<and> list_all (\<lambda>j. raises_ENOTFOUND (init_result e (init_calls w + j))) [0..<n - 1]
      \<and> (case init_result e (init_calls w + (n - 1)) of
            Returns u \<Rightarrow>
              fst (initializeMidjourney e w) = Inr ()
              \<and> w' = w\<lparr>init_calls := init_calls w + n, trace := trace w @ init_trace n,
                        mjInitialized := True\<rparr>
          | Raises err \<Rightarrow>
              (err_code err \<noteq> Some ''ENOTFOUND'' \<or> n = 3)
              \<and> fst (initializeMidjourney e w) = Inl err
              \<and> w' = w\<lparr>init_calls := init_calls w + n, trace := trace w @ init_trace n\<rparr>))"
proof -
  have i: "initializeMidjourney e w = init_loop e 0 w"
    using assms by (simp add: initializeMidjourney_def)
  show ?thesis
  proof (cases "init_result e (init_calls w)")
    case (Returns u)
    then show ?thesis by (simp add: i init_loop_unroll Let_def)
  next
    case r0: (Raises e0)
    show ?thesis
    proof (cases "err_code e0 = Some ''ENOTFOUND''")
      case False
      then show ?thesis using r0 by (simp add: i init_loop_unroll Let_def)
    next
      case c0: True
      show ?thesis
      proof (cases "init_result e (init_calls w + 1)")
        case (Returns u)
        then show ?thesis
          using r0 c0 by (simp add: i init_loop_unroll Let_def raises_ENOTFOUND_def)
      next
        case r1: (Raises e1)
        show ?thesis
        proof (cases "err_code e1 = Some ''ENOTFOUND''")
          case False
          then show ?thesis
            using r0 c0 r1 by (simp add: i init_loop_unroll Let_def raises_ENOTFOUND_def)
        next
          case c1: True
          show ?thesis
          proof (cases "init_result e (init_calls w + 2)")
            case (Returns u)
            then show ?thesis
              using r0 c0 r1 c1
              by (simp add: i init_loop_unroll Let_def raises_ENOTFOUND_def upt_rec numeral_2_eq_2)
          next
            case (Raises e2)
            then show ?thesis
              using r0 c0 r1 c1
              by (simp add: i init_loop_unroll Let_def raises_ENOTFOUND_def upt_rec numeral_2_eq_2)
          qed
        qed
      qed
    qed
  qed
qed

lemma connect_success_ready:
  "fst (initializeMidjourney e w) = Inr () \<Longrightarrow> mjInitialized (snd (initializeMidjourney e w))"
  by (cases "mjInitialized w")
     (auto simp: initializeMidjourney_def init_loop_unroll split: outcome.splits if_splits)

text \<open>
  Claim C8.  With the session initialized, \<open>initializeMidjourney\<close> does nothing.
  Otherwise it calls \<^verbatim>\<open>mj.init\<close> at least once and at most three times, waiting 3000 ms
  times the number of the failed attempt between attempts; every attempt before the
  last one failed with \<^verbatim>\<open>ENOTFOUND\<close>.  When the last attempt returned, the session is
  initialized; when it raised, the error goes to the caller, the session stays
  uninitialized, and the error either is not \<^verbatim>\<open>ENOTFOUND\<close> or came from the third
  attempt.  After a call that succeeded, a second call does nothing.
\<close>

theorem initializeMidjourney_ensures_ready:
  assumes "mjInitialized w1" and "\<not> mjInitialized w2"
    and "fst (initializeMidjourney e w3) = Inr ()"
  shows "initializeMidjourney e w1 = (Inr (), w1)
    \<and> (let w' = snd (initializeMidjourney e w2); n = init_calls w' - init_calls w2 in
        1 \<le> n \<and> n \<le> 3
        \<and> list_all (\<lambda>j. raises_ENOTFOUND (init_result e (init_calls w2 + j))) [0..<n - 1]
        \<and> (case init_result e (init_calls w2 + (n - 1)) of
              Returns u \<Rightarrow>
                fst (initializeMidjourney e w2) = Inr ()
                \<and> w' = w2\<lparr>init_calls := init_calls w2 + n, trace := trace w2 @ init_trace n,
                          mjInitialized := True\<rparr>
            | Raises err \<Rightarrow>
                (err_code err \<noteq> Some ''ENOTFOUND'' \<or> n = 3)
                \<and> fst (initializeMidjourney e w2) = Inl err
                \<and> w' = w2\<lparr>init_calls := init_calls w2 + n, trace := trace w2 @ init_trace n\<rparr>))
    \<and> initializeMidjourney e (snd (initializeMidjourney e w3))
        = (Inr (), snd (initializeMidjourney e w3))"
proof (intro conjI)
  show "initializeMidjourney e w1 = (Inr (), w1)"
    using assms(1) by (simp add: initializeMidjourney_def)
  show "initializeMidjourney e (snd (initializeMidjourney e w3))
        = (Inr (), snd (initializeMidjourney e w3))"
    using connect_success_ready [OF assms(3)] by (simp add: initializeMidjourney_def)
qed (rule connect_from_uninitialized [OF assms(2)])

text \<open>
  The hypotheses hold for an environment whose first two connection attempts fail with
  the resolution error: the third attempt succeeds, after waits of 3000 and 6000 ms.
\<close>

theorem initializeMidjourney_ensures_ready_witness:
  "mjInitialized (world0\<lparr>mjInitialized := True\<rparr>) \<and> \<not> mjInitialized world0
   \<and> fst (initializeMidjourney dns_twice_env world0) = Inr ()
   \<and> trace (snd (initializeMidjourney dns_twice_env world0))
       = [InitCalled, Waited 3000, InitCalled, Waited 6000, InitCalled]
   \<and> initializeMidjourney dns_twice_env (world0\<lparr>mjInitialized := True\<rparr>)
       = (Inr (), world0\<lparr>mjInitialized := True\<rparr>)
   \<and> (let w' = snd (initializeMidjourney dns_twice_env world0);
           n = init_calls w' - init_calls world0 in
        1 \<le> n \<and> n \<le> 3
        \<and> list_all (\<lambda>j. raises_ENOTFOUND (init_result dns_twice_env (init_calls world0 + j)))
             [0..<n - 1]
        \<and> (case init_result dns_twice_env (init_calls world0 + (n - 1)) of
              Returns u \<Rightarrow>
                fst (initializeMidjourney dns_twice_env world0) = Inr ()
                \<and> w' = world0\<lparr>init_calls := init_calls world0 + n,
                            trace := trace world0 @ init_trace n, mjInitialized := True\<rparr>
            | Raises err \<Rightarrow>
                (err_code err \<noteq> Some ''ENOTFOUND'' \<or> n = 3)
                \<and> fst (initializeMidjourney dns_twice_env world0) = Inl err
                \<and> w' = world0\<lparr>init_calls := init_calls world0 + n,
                            trace := trace world0 @ init_trace n\<rparr>))
   \<and> initializeMidjourney dns_twice_env (snd (initializeMidjourney dns_twice_env world0))
       = (Inr (), snd (initializeMidjourney dns_twice_env world0))"
proof -
  have run: "initializeMidjourney dns_twice_env world0
      = (Inr (), world0\<lparr>init_calls := 3,
           trace := [InitCalled, Waited 3000, InitCalled, Waited 6000, InitCalled],
           mjInitialized := True\<rparr>)"
    by (simp add: initializeMidjourney_def init_loop_unroll world0_def dns_twice_env_def
          quiet_env_def dns_error_def init_trace_def upt_rec baseDelay_def)
  have h1: "mjInitialized (world0\<lparr>mjInitialized := True\<rparr>)" by simp
  have h2: "\<not> mjInitialized world0" by (simp add: world0_def)
  have h3: "fst (initializeMidjourney dns_twice_env world0) = Inr ()" by (simp add: run)
  have t: "trace (snd (initializeMidjourney dns_twice_env world0))
       = [InitCalled, Waited 3000, InitCalled, Waited 6000, InitCalled]" by (simp add: run)
  note c = initializeMidjourney_ensures_ready [OF h1 h2 h3]
  show ?thesis
    by (intro conjI h1 h2 h3 t c [THEN conjunct1] c [THEN conjunct2, THEN conjunct1]
          c [THEN conjunct2, THEN conjunct2])
qed

section \<open>The pacing delay: properties\<close>

lemma digit_not_space: "is_digit c \<Longrightarrow> \<not> is_space c"
  by (auto simp: is_digit_def is_space_def)

lemma digit_not_sign: "is_digit c \<Longrightarrow> c \<noteq> CHR ''-'' \<and> c \<noteq> CHR ''+'' \<and> c \<noteq> CHR ''x'' \<and> c \<noteq> CHR ''X''"
  by (auto simp: is_digit_def)

lemma digit_in_radix_10: "is_digit c \<Longrightarrow> in_radix 10 c"
  by (simp add: in_radix_def char_digit_def is_digit_def digit_val_def)

lemma radix_value_digits_acc:
  "list_all is_digit s \<Longrightarrow>
   foldl (\<lambda>n c. 10 * n + (case char_digit c of None \<Rightarrow> 0 | Some v \<Rightarrow> v)) a s
     = foldl (\<lambda>n c. 10 * n + digit_val c) a s"
  by (induction s arbitrary: a) (simp_all add: char_digit_def)

lemma radix_value_digits: "list_all is_digit s \<Longrightarrow> radix_value 10 s = dec_value s"
  by (simp add: radix_value_def dec_value_def radix_value_digits_acc)

lemma strip_radix_digits: "list_all is_digit s \<Longrightarrow> strip_radix s = (10, s)"
  by (auto simp: strip_radix_def is_digit_def split: list.splits)

lemma parse_digits:
  assumes d: "list_all is_digit s" and n: "s \<noteq> []"
  shows "parse_int s = Some (dec_value s)"
proof -
  obtain c cs where s: "s = c # cs" using n by (cases s) auto
  have c: "is_digit c" using d s by simp
  have dw: "dropWhile is_space s = s" using digit_not_space [OF c] s by simp
  have ss: "strip_sign s = (1, s)"
    using digit_not_sign [OF c] s by (simp add: strip_sign_def)
  have tw: "takeWhile (in_radix 10) s = s"
    using d digit_in_radix_10 by (auto simp: list_all_iff intro: takeWhile_eq_all_conv [THEN iffD2])
  show ?thesis
    using n by (simp add: parse_int_def dw ss strip_radix_digits [OF d] tw radix_value_digits [OF d])
qed

lemma parse_minus_digits:
  assumes d: "list_all is_digit s" and n: "s \<noteq> []"
  shows "parse_int (CHR ''-'' # s) = Some (- dec_value s)"
proof -
  have sp: "\<not> is_space CHR ''-''" by (simp add: is_space_def)
  have tw: "takeWhile (in_radix 10) s = s"
    using d digit_in_radix_10 by (auto simp: list_all_iff intro: takeWhile_eq_all_conv [THEN iffD2])
  show ?thesis
    using n sp
    by (simp add: parse_int_def strip_sign_def strip_radix_digits [OF d] tw radix_value_digits [OF d])
qed

lemma parse_int_string: "parse_int (int_string n) = Some n"
proof (cases "n < 0")
  case True
  then show ?thesis
    using parse_minus_digits [OF decimal_digits decimal_not_Nil, of "nat (- n)"]
    by (simp add: int_string_def dec_value_decimal)
next
  case False
  then show ?thesis
    using parse_digits [OF decimal_digits decimal_not_Nil, of "nat n"]
    by (simp add: int_string_def dec_value_decimal)
qed

lemma parseInt_JNum: "parseInt (JNum n) = Some (Rep_safe_int n)"
  by (simp add: parseInt_def parse_int_string)

lemma Rep_safe: "\<bar>n\<bar> \<le> 9007199254740991 \<Longrightarrow> Rep_safe_int (safe n) = n"
  by (simp add: safe_def Abs_safe_int_inverse)

lemma Rep_safe_values:
  "Rep_safe_int (safe 0) = 0" "Rep_safe_int (safe 5) = 5" "Rep_safe_int (safe 11) = 11"
  "Rep_safe_int (safe 5000) = 5000" "Rep_safe_int (safe 12000) = 12000"
  by (simp_all add: Rep_safe)

lemma parse_examples:
  "parse_int ''5 apples'' = Some 5 \<and> parse_int ''abc'' = None \<and> parse_int ''  12px'' = Some 12
   \<and> parse_int ''0x1f'' = Some 31 \<and> parse_int ''-7'' = Some (- 7) \<and> parse_int '''' = None
   \<and> parse_int ''0x'' = None \<and> parse_int ''U1'' = None \<and> parse_int ''1'' = Some 1"
  by (simp add: parse_int_def strip_sign_def strip_radix_def is_space_def in_radix_def
        char_digit_def is_digit_def digit_val_def radix_value_def)

lemma safeCall_effect:
  "\<exists>n. 1 \<le> n \<and> n \<le> 3
     \<and> snd (safeCall e p w)
         = w\<lparr>custom_calls := custom_calls w + n, trace := trace w @ attempts_trace p 3000 n\<rparr>"
proof -
  let ?n = "custom_calls (snd (safeCall e p w)) - custom_calls w"
  have "1 \<le> ?n \<and> ?n \<le> 3
     \<and> snd (safeCall e p w)
         = w\<lparr>custom_calls := custom_calls w + ?n, trace := trace w @ attempts_trace p 3000 ?n\<rparr>"
    by (simp add: safeCall_unroll split: outcome.splits)
  then show ?thesis by blast
qed



lemma safeCall_random_draws: "random_draws (snd (safeCall e p w)) = random_draws w"
  using safeCall_effect [of e p w] by auto


lemma wait_fields:
  "trace (wait ms w) = trace w @ [Waited ms]" "random_draws (wait ms w) = random_draws w"
  "custom_calls (wait ms w) = custom_calls w" "imagine_calls (wait ms w) = imagine_calls w"
  by (simp_all add: wait_def log_event_def)





lemma upscale_loop_draws:
  "\<not> truthy d \<Longrightarrow> fst (upscale_loop e d vm opts labels acc w) = Inr ups \<Longrightarrow>
   random_draws (snd (upscale_loop e d vm opts labels acc w)) = random_draws w + length labels"
proof (induction labels arbitrary: acc w)
  case Nil
  then show ?case by simp
next
  case (Cons lbl labels)
  let ?w2 = "wait (delay_ms d (random e (random_draws w))) (w\<lparr>random_draws := random_draws w + 1\<rparr>)"
  have r2: "random_draws ?w2 = random_draws w + 1" by (simp add: wait_fields)
  show ?case
  proof (cases "find (\<lambda>x. label x = lbl) opts")
    case None
    then show ?thesis
      using Cons.IH [OF Cons.prems(1), of acc ?w2] Cons.prems r2 by (simp add: Let_def)
  next
    case (Some uo)
    let ?p = "\<lparr>msgId = msg_id vm, cp_flags = flags vm, customId = custom uo\<rparr>"
    obtain res w3 where sc: "safeCall e ?p ?w2 = (res, w3)" by (cases "safeCall e ?p ?w2")
    have r3: "random_draws w3 = random_draws ?w2"
      using safeCall_random_draws [of e ?p ?w2] sc by simp
    show ?thesis
      using Some sc r3 r2 Cons.IH [OF Cons.prems(1), of _ w3] Cons.prems
      by (auto simp: Let_def split: sum.splits option.splits if_splits)
  qed
qed

lemma upscale_loop_append:
  "upscale_loop e d vm opts (xs @ ys) acc w =
     (case upscale_loop e d vm opts xs acc w of
        (Inl err, w') \<Rightarrow> (Inl err, w')
      | (Inr acc', w') \<Rightarrow> upscale_loop e d vm opts ys acc' w')"
proof (induction xs arbitrary: acc w)
  case Nil
  then show ?case by simp
next
  case (Cons lbl xs)
  show ?case
    by (simp add: Let_def Cons.IH split: option.splits sum.splits prod.splits)
qed









section \<open>The endpoints: properties\<close>

lemma init_preserves:
  "custom_calls (snd (initializeMidjourney e w)) = custom_calls w"
  "imagine_calls (snd (initializeMidjourney e w)) = imagine_calls w"
  "storage (snd (initializeMidjourney e w)) = storage w"
  "clock_reads (snd (initializeMidjourney e w)) = clock_reads w"
  "random_draws (snd (initializeMidjourney e w)) = random_draws w"
  by (auto simp: initializeMidjourney_def init_loop_unroll split: outcome.splits)








text \<open>
  Claim C7.  For a request that passes the validation, with the session initialized:
  when the job store has no record under the original id, or the record has no options,
  the answer is 404 (an inherited member read under the id has no options either); when the record has options but none with the label V followed by
  the variation number, the answer is 404 and lists the labels the record has.  In both
  cases neither \<^verbatim>\<open>Custom\<close> nor \<^verbatim>\<open>Imagine\<close> is called and nothing is waited for.
\<close>

theorem generate_upscale_not_found:
  assumes "initializeMidjourney e wa = (Inr (), wa1)"
    and "truthy (originalMessageId ba)" and "variationNumber ba = Some va"
    and "1 \<le> va" and "va \<le> 4"
    and "no_options (getMessage (to_string (originalMessageId ba)) (storage wa))"
    and "initializeMidjourney e wb = (Inr (), wb1)"
    and "truthy (originalMessageId bb)" and "variationNumber bb = Some vb"
    and "1 \<le> vb" and "vb \<le> 4"
    and "getMessage (to_string (originalMessageId bb)) (storage wb) = Found om"
    and "options om = Some os"
    and "find (\<lambda>x. label x = ''V'' @ int_string vb) os = None"
  shows "fst (generate_upscale e ba wa)
        = NotFound ''Original message not found or has no options'' None
    \<and> status_code (fst (generate_upscale e ba wa)) = 404
    \<and> custom_calls (snd (generate_upscale e ba wa)) = custom_calls wa
    \<and> imagine_calls (snd (generate_upscale e ba wa)) = imagine_calls wa
    \<and> trace (snd (generate_upscale e ba wa)) = trace wa1
    \<and> fst (generate_upscale e bb wb)
        = NotFound (''Variation V'' @ int_string vb @ '' not available'') (Some (map label os))
    \<and> status_code (fst (generate_upscale e bb wb)) = 404
    \<and> custom_calls (snd (generate_upscale e bb wb)) = custom_calls wb
    \<and> imagine_calls (snd (generate_upscale e bb wb)) = imagine_calls wb
    \<and> trace (snd (generate_upscale e bb wb)) = trace wb1"
proof -
  have pa: "storage wa1 = storage wa" "custom_calls wa1 = custom_calls wa"
    "imagine_calls wa1 = imagine_calls wa"
    using init_preserves [of e wa] assms(1) by simp_all
  have pb: "storage wb1 = storage wb" "custom_calls wb1 = custom_calls wb"
    "imagine_calls wb1 = imagine_calls wb"
    using init_preserves [of e wb] assms(7) by simp_all
  have ra: "generate_upscale e ba wa
      = (NotFound ''Original message not found or has no options'' None,
         wa1\<lparr>storage := snd (loadMessages (storage wa1))\<rparr>)"
    using assms(1-6) pa
    by (auto simp: generate_upscale_def get_in_world_def no_options_def
          split: option.splits lookup.splits)
  have rb: "generate_upscale e bb wb
      = (NotFound (''Variation V'' @ int_string vb @ '' not available'') (Some (map label os)),
         wb1\<lparr>storage := snd (loadMessages (storage wb1))\<rparr>)"
    using assms(7-14) pb
    by (simp add: generate_upscale_def get_in_world_def Let_def)
  show ?thesis by (simp add: ra rb pa pb)
qed

lemma init_ready_world: "initializeMidjourney e ready_world = (Inr (), ready_world)"
  by (simp add: initializeMidjourney_def ready_world_def)

lemma storage_ready_world:
  "storage ready_world = Wrapped [(''o1'', original_job\<lparr>timestamp := Some 1000\<rparr>)]"
  by (simp add: ready_world_def world0_def)

text \<open>
  The hypotheses hold for the store that holds the job o1 with the options V1 and V2: a
  request for the unknown id nope, and a request for variation 3 of o1.
\<close>

theorem generate_upscale_not_found_witness:
  "initializeMidjourney quiet_env ready_world = (Inr (), ready_world)
   \<and> truthy (originalMessageId \<lparr>originalMessageId = JStr ''nope'', variationNumber = Some 1,
                                 delayBetweenUpscales = JUndefined\<rparr>)
   \<and> variationNumber \<lparr>originalMessageId = JStr ''nope'', variationNumber = Some 1,
                       delayBetweenUpscales = JUndefined\<rparr> = Some 1
   \<and> (1::int) \<le> 1 \<and> (1::int) \<le> 4
   \<and> no_options (getMessage (to_string (originalMessageId
         \<lparr>originalMessageId = JStr ''nope'', variationNumber = Some 1,
           delayBetweenUpscales = JUndefined\<rparr>)) (storage ready_world))
   \<and> truthy (originalMessageId \<lparr>originalMessageId = JStr ''o1'', variationNumber = Some 3,
                                 delayBetweenUpscales = JUndefined\<rparr>)
   \<and> variationNumber \<lparr>originalMessageId = JStr ''o1'', variationNumber = Some 3,
                       delayBetweenUpscales = JUndefined\<rparr> = Some 3
   \<and> (1::int) \<le> 3 \<and> (3::int) \<le> 4
   \<and> getMessage (to_string (originalMessageId
         \<lparr>originalMessageId = JStr ''o1'', variationNumber = Some 3,
           delayBetweenUpscales = JUndefined\<rparr>)) (storage ready_world)
       = Found (original_job\<lparr>timestamp := Some 1000\<rparr>)
   \<and> options (original_job\<lparr>timestamp := Some 1000\<rparr>)
       = Some [\<lparr>label = ''V1'', custom = ''cv1''\<rparr>, \<lparr>label = ''V2'', custom = ''cv2''\<rparr>]
   \<and> find (\<lambda>x. label x = ''V'' @ int_string 3)
        [\<lparr>label = ''V1'', custom = ''cv1''\<rparr>, \<lparr>label = ''V2'', custom = ''cv2''\<rparr>] = None
   \<and> fst (generate_upscale quiet_env \<lparr>originalMessageId = JStr ''nope'', variationNumber = Some 1,
           delayBetweenUpscales = JUndefined\<rparr> ready_world)
        = NotFound ''Original message not found or has no options'' None
   \<and> status_code (fst (generate_upscale quiet_env \<lparr>originalMessageId = JStr ''nope'',
           variationNumber = Some 1, delayBetweenUpscales = JUndefined\<rparr> ready_world)) = 404
   \<and> custom_calls (snd (generate_upscale quiet_env \<lparr>originalMessageId = JStr ''nope'',
           variationNumber = Some 1, delayBetweenUpscales = JUndefined\<rparr> ready_world))
       = custom_calls ready_world
   \<and> imagine_calls (snd (generate_upscale quiet_env \<lparr>originalMessageId = JStr ''nope'',
           variationNumber = Some 1, delayBetweenUpscales = JUndefined\<rparr> ready_world))
       = imagine_calls ready_world
   \<and> trace (snd (generate_upscale quiet_env \<lparr>originalMessageId = JStr ''nope'',
           variationNumber = Some 1, delayBetweenUpscales = JUndefined\<rparr> ready_world))
       = trace ready_world
   \<and> fst (generate_upscale quiet_env \<lparr>originalMessageId = JStr ''o1'', variationNumber = Some 3,
           delayBetweenUpscales = JUndefined\<rparr> ready_world)
        = NotFound (''Variation V'' @ int_string 3 @ '' not available'')
            (Some (map label [\<lparr>label = ''V1'', custom = ''cv1''\<rparr>,
                              \<lparr>label = ''V2'', custom = ''cv2''\<rparr>]))
   \<and> status_code (fst (generate_upscale quiet_env \<lparr>originalMessageId = JStr ''o1'',
           variationNumber = Some 3, delayBetweenUpscales = JUndefined\<rparr> ready_world)) = 404
   \<and> custom_calls (snd (generate_upscale quiet_env \<lparr>originalMessageId = JStr ''o1'',
           variationNumber = Some 3, delayBetweenUpscales = JUndefined\<rparr> ready_world))
       = custom_calls ready_world
   \<and> imagine_calls (snd (generate_upscale quiet_env \<lparr>originalMessageId = JStr ''o1'',
           variationNumber = Some 3, delayBetweenUpscales = JUndefined\<rparr> ready_world))
       = imagine_calls ready_world
   \<and> trace (snd (generate_upscale quiet_env \<lparr>originalMessageId = JStr ''o1'',
           variationNumber = Some 3, delayBetweenUpscales = JUndefined\<rparr> ready_world))
       = trace ready_world"
proof -
  have i3: "int_string 3 = ''3''" by code_simp
  have h1: "initializeMidjourney quiet_env ready_world = (Inr (), ready_world)"
    by (rule init_ready_world)
  have h2: "truthy (originalMessageId \<lparr>originalMessageId = JStr ''nope'', variationNumber = Some 1,
                                 delayBetweenUpscales = JUndefined\<rparr>)" by simp
  have h3: "variationNumber \<lparr>originalMessageId = JStr ''nope'', variationNumber = Some 1,
                       delayBetweenUpscales = JUndefined\<rparr> = Some 1" by simp
  have h4: "(1::int) \<le> 1" by simp
  have h5: "(1::int) \<le> 4" by simp
  have h6: "no_options (getMessage (to_string (originalMessageId
         \<lparr>originalMessageId = JStr ''nope'', variationNumber = Some 1,
           delayBetweenUpscales = JUndefined\<rparr>)) (storage ready_world))"
    by (simp add: storage_ready_world getMessage_def obj_get_def no_options_def absent_def
          object_prototype_names_def)
  have h8: "truthy (originalMessageId \<lparr>originalMessageId = JStr ''o1'', variationNumber = Some 3,
                                 delayBetweenUpscales = JUndefined\<rparr>)" by simp
  have h9: "variationNumber \<lparr>originalMessageId = JStr ''o1'', variationNumber = Some 3,
                       delayBetweenUpscales = JUndefined\<rparr> = Some 3" by simp
  have h10: "(1::int) \<le> 3" by simp
  have h11: "(3::int) \<le> 4" by simp
  have h12: "getMessage (to_string (originalMessageId
         \<lparr>originalMessageId = JStr ''o1'', variationNumber = Some 3,
           delayBetweenUpscales = JUndefined\<rparr>)) (storage ready_world)
       = Found (original_job\<lparr>timestamp := Some 1000\<rparr>)"
    by (simp add: storage_ready_world getMessage_def obj_get_def)
  have h13: "options (original_job\<lparr>timestamp := Some 1000\<rparr>)
       = Some [\<lparr>label = ''V1'', custom = ''cv1''\<rparr>, \<lparr>label = ''V2'', custom = ''cv2''\<rparr>]"
    by (simp add: original_job_def)
  have h14: "find (\<lambda>x. label x = ''V'' @ int_string 3)
        [\<lparr>label = ''V1'', custom = ''cv1''\<rparr>, \<lparr>label = ''V2'', custom = ''cv2''\<rparr>] = None"
    by (simp add: i3)
  note c = generate_upscale_not_found [OF h1 h2 h3 h4 h5 h6 h1 h8 h9 h10 h11 h12 h13 h14]
  show ?thesis
    by (intro conjI h1 h2 h3 h4 h5 h6 h8 h9 h10 h11 h12 h13 h14 c [THEN conjunct1]
          c [THEN conjunct2, THEN conjunct1]
          c [THEN conjunct2, THEN conjunct2, THEN conjunct1]
          c [THEN conjunct2, THEN conjunct2, THEN conjunct2, THEN conjunct1]
          c [THEN conjunct2, THEN conjunct2, THEN conjunct2, THEN conjunct2, THEN conjunct1]
          c [THEN conjunct2, THEN conjunct2, THEN conjunct2, THEN conjunct2, THEN conjunct2,
             THEN conjunct1]
          c [THEN conjunct2, THEN conjunct2, THEN conjunct2, THEN conjunct2, THEN conjunct2,
             THEN conjunct2, THEN conjunct1]
          c [THEN conjunct2, THEN conjunct2, THEN conjunct2, THEN conjunct2, THEN conjunct2,
             THEN conjunct2, THEN conjunct2, THEN conjunct1]
          c [THEN conjunct2, THEN conjunct2, THEN conjunct2, THEN conjunct2, THEN conjunct2,
             THEN conjunct2, THEN conjunct2, THEN conjunct2, THEN conjunct1]
          c [THEN conjunct2, THEN conjunct2, THEN conjunct2, THEN conjunct2, THEN conjunct2,
             THEN conjunct2, THEN conjunct2, THEN conjunct2, THEN conjunct2])
qed

lemma safeCall_no_raise:
  assumes "no_triple_raise e"
  shows "\<exists>r. fst (safeCall e p w) = Inr r"
proof (rule ccontr)
  assume "\<not> (\<exists>r. fst (safeCall e p w) = Inr r)"
  then have "raises (custom_result e (custom_calls w) p)
      \<and> raises (custom_result e (custom_calls w + 1) p)
      \<and> raises (custom_result e (custom_calls w + 2) p)"
    by (auto simp: safeCall_unroll raises_def split: outcome.splits)
  then show False using assms unfolding no_triple_raise_def by blast
qed

lemma upscale_loop_completes:
  assumes n: "no_triple_raise e"
  shows "list_all (completed_ok opts every) acc \<Longrightarrow> set labels \<subseteq> set every \<Longrightarrow>
    \<exists>ups. fst (upscale_loop e d vm opts labels acc w) = Inr ups
          \<and> list_all (completed_ok opts every) ups"
proof (induction labels arbitrary: acc w)
  case Nil
  then show ?case by simp
next
  case (Cons lbl labels)
  let ?w1 = "if truthy d then w else w\<lparr>random_draws := random_draws w + 1\<rparr>"
  let ?w2 = "wait (delay_ms d (random e (random_draws w))) ?w1"
  have sub: "set labels \<subseteq> set every" and mem: "lbl \<in> set every" using Cons.prems(2) by auto
  note ih = Cons.IH [OF _ sub]
  show ?case
  proof (cases "find (\<lambda>x. label x = lbl) opts")
    case None
    then show ?thesis using ih [OF Cons.prems(1), of ?w2] by (simp add: Let_def)
  next
    case (Some uo)
    let ?p = "\<lparr>msgId = msg_id vm, cp_flags = flags vm, customId = custom uo\<rparr>"
    obtain r where r: "fst (safeCall e ?p ?w2) = Inr r" using safeCall_no_raise [OF n] by blast
    obtain w3 where sc: "safeCall e ?p ?w2 = (Inr r, w3)"
      using r by (cases "safeCall e ?p ?w2") auto
    show ?thesis
    proof (cases r)
      case None
      then show ?thesis using Some sc ih [OF Cons.prems(1), of w3] by (simp add: Let_def)
    next
      case up: (Some up)
      show ?thesis
      proof (cases "image_url up")
        case None
        then show ?thesis using Some sc up ih [OF Cons.prems(1), of w3] by (simp add: Let_def)
      next
        case u: (Some u)
        show ?thesis
        proof (cases "u = []")
          case True
          then show ?thesis
            using Some sc up u ih [OF Cons.prems(1), of w3] by (simp add: Let_def)
        next
          case False
          let ?new = "\<lparr>up_label = lbl, up_imageUrl = u, upscaleNumber = parse_int (drop 1 lbl)\<rparr>"
          have "completed_ok opts every ?new"
            using mem False Some by (simp add: completed_ok_def)
          then have "list_all (completed_ok opts every) (acc @ [?new])"
            using Cons.prems(1) by simp
          then show ?thesis
            using Some sc up u False ih [of "acc @ [?new]" w3] by (simp add: Let_def)
        qed
      qed
    qed
  qed
qed

lemma upscale_loop_no_option:
  "list_all (\<lambda>l. find (\<lambda>x. label x = l) opts = None) labels \<Longrightarrow>
   fst (upscale_loop e d vm opts labels acc w) = Inr acc"
  by (induction labels arbitrary: w) (simp_all add: Let_def)

text \<open>
  What the loop passes over.  Once the variation has been created and has options, and
  provided that no call of \<^verbatim>\<open>Custom\<close> fails on all three attempts, the answer is a
  success with status 200 that carries the upscales that completed: each is for one of
  the labels U1 and U2, has an option on the variation record behind it and has a
  locator.  A label with no option, a call that returns nothing and a result with no
  locator are passed over; when the variation record has neither option the list is
  empty.
\<close>

lemma generate_upscale_skips:
  assumes "initializeMidjourney e w = (Inr (), w1)"
    and "truthy (originalMessageId body)" and "variationNumber body = Some vn"
    and "1 \<le> vn" and "vn \<le> 4"
    and "get_in_world (to_string (originalMessageId body)) w1 = (Found om, w2)"
    and "options om = Some os"
    and "find (\<lambda>x. label x = ''V'' @ int_string vn) os = Some vo"
    and "safeCall e \<lparr>msgId = msg_id om, cp_flags = flags om, customId = custom vo\<rparr> w2
           = (Inr (Some vm), w3)"
    and "options vm = Some vos"
    and "no_triple_raise e"
  shows "\<exists>ups. fst (generate_upscale e body w)
            = Completed (originalMessageId body) (''V'' @ int_string vn) (msg_id vm) ups
                (pacing_text (delayBetweenUpscales body))
          \<and> status_code (fst (generate_upscale e body w)) = 200
          \<and> list_all (completed_ok vos upscaleLabels) ups
          \<and> (list_all (\<lambda>l. find (\<lambda>x. label x = l) vos = None) upscaleLabels \<longrightarrow> ups = [])"
proof -
  let ?w = "save_in_world e (msg_id vm) vm w3"
  let ?loop = "upscale_loop e (delayBetweenUpscales body) vm vos upscaleLabels [] ?w"
  obtain ups where u: "fst ?loop = Inr ups" and ok: "list_all (completed_ok vos upscaleLabels) ups"
  proof -
    have "list_all (completed_ok vos upscaleLabels) []" and "set upscaleLabels \<subseteq> set upscaleLabels"
      by simp_all
    then have "\<exists>ups. fst ?loop = Inr ups \<and> list_all (completed_ok vos upscaleLabels) ups"
      by (rule upscale_loop_completes [OF assms(11)])
    then show ?thesis using that by blast
  qed
  obtain w4 where l: "?loop = (Inr ups, w4)" using u by (cases ?loop) auto
  have r: "fst (generate_upscale e body w)
      = Completed (originalMessageId body) (''V'' @ int_string vn) (msg_id vm) ups
          (pacing_text (delayBetweenUpscales body))"
    using assms(1-10) l by (simp add: generate_upscale_def Let_def)
  have e: "list_all (\<lambda>l. find (\<lambda>x. label x = l) vos = None) upscaleLabels \<longrightarrow> ups = []"
    using upscale_loop_no_option [of vos upscaleLabels e "delayBetweenUpscales body" vm "[]" ?w] u
    by auto
  show ?thesis using r ok e by auto
qed

lemma custom_upscale_env:
  "custom_result upscale_env k p
     = (if customId p = ''cv1'' then Returns (Some variation_job) else Returns (Some upscale_job))"
  by (simp add: upscale_env_def)

lemma custom_failing_upscale_env:
  "custom_result failing_upscale_env k p
     = (if customId p = ''cv1'' then Returns (Some full_variation_job)
        else if customId p = ''cu1'' then Returns (Some first_upscale_job)
        else Raises other_error)"
  by (simp add: failing_upscale_env_def)

lemma get_o1_ready_world:
  "get_in_world ''o1'' ready_world = (Found (original_job\<lparr>timestamp := Some 1000\<rparr>), ready_world)"
  by (simp add: get_in_world_def ready_world_def world0_def getMessage_def obj_get_def)

lemma int_string_1: "int_string 1 = ''1''"
  by code_simp

lemma parse_int_2: "parse_int ''2'' = Some 2"
  by (simp add: parse_int_def strip_sign_def strip_radix_def is_space_def in_radix_def
        char_digit_def is_digit_def digit_val_def radix_value_def)

lemma parse_int_1: "parse_int ''1'' = Some 1"
  by (simp add: parse_int_def strip_sign_def strip_radix_def is_space_def in_radix_def
        char_digit_def is_digit_def digit_val_def radix_value_def)

lemma delay_12000: "delay_ms (JNum (safe 12000)) r = 12000"
  by (simp add: delay_ms_def parseInt_JNum Rep_safe_values)

text \<open>
  A variation that offers U2 but not U1: the answer is a success with the result for U2
  alone.
\<close>

lemma upscale_env_run:
  "fst (generate_upscale upscale_env
          \<lparr>originalMessageId = JStr ''o1'', variationNumber = Some 1,
            delayBetweenUpscales = JNum (safe 12000)\<rparr> ready_world)
     = Completed (JStr ''o1'') ''V1'' ''v1''
         [\<lparr>up_label = ''U2'', up_imageUrl = ''https://cdn/u2.png'', upscaleNumber = Some 2\<rparr>]
         (pacing_text (JNum (safe 12000)))"
  by (simp add: generate_upscale_def init_ready_world get_o1_ready_world original_job_def job_def
        int_string_1 safeCall_unroll custom_upscale_env variation_job_def upscaleLabels_def
        Let_def delay_12000 image_url_def upscale_job_def parse_int_2 Rep_safe_values)

lemma safeCall_raises:
  assumes "custom_result e (custom_calls w) p = Raises e1"
    and "custom_result e (custom_calls w + 1) p = Raises e2"
    and "custom_result e (custom_calls w + 2) p = Raises e3"
  shows "safeCall e p w
     = (Inl e3, w\<lparr>custom_calls := custom_calls w + 3,
                   trace := trace w @ attempts_trace p 3000 3\<rparr>)"
  using assms by (simp add: safeCall_unroll)

lemma upscale_step_raises:
  assumes f: "find (\<lambda>x. label x = lbl) opts = Some uo"
    and r1: "custom_result e (custom_calls w)
               \<lparr>msgId = msg_id vm, cp_flags = flags vm, customId = custom uo\<rparr> = Raises e1"
    and r2: "custom_result e (custom_calls w + 1)
               \<lparr>msgId = msg_id vm, cp_flags = flags vm, customId = custom uo\<rparr> = Raises e2"
    and r3: "custom_result e (custom_calls w + 2)
               \<lparr>msgId = msg_id vm, cp_flags = flags vm, customId = custom uo\<rparr> = Raises e3"
  shows "fst (upscale_loop e d vm opts (lbl # labels) acc w) = Inl e3"
    and "custom_calls (snd (upscale_loop e d vm opts (lbl # labels) acc w)) = custom_calls w + 3"
proof -
  let ?p = "\<lparr>msgId = msg_id vm, cp_flags = flags vm, customId = custom uo\<rparr>"
  let ?w1 = "if truthy d then w else w\<lparr>random_draws := random_draws w + 1\<rparr>"
  let ?w2 = "wait (delay_ms d (random e (random_draws w))) ?w1"
  have cc: "custom_calls ?w2 = custom_calls w" by (simp add: wait_fields)
  have "safeCall e ?p ?w2
     = (Inl e3, ?w2\<lparr>custom_calls := custom_calls ?w2 + 3,
                     trace := trace ?w2 @ attempts_trace ?p 3000 3\<rparr>)"
    using r1 r2 r3 by (intro safeCall_raises) (simp_all only: cc)
  then have l: "upscale_loop e d vm opts (lbl # labels) acc w
     = (Inl e3, ?w2\<lparr>custom_calls := custom_calls ?w2 + 3,
                     trace := trace ?w2 @ attempts_trace ?p 3000 3\<rparr>)"
    using f by (simp add: Let_def)
  show "fst (upscale_loop e d vm opts (lbl # labels) acc w) = Inl e3" by (simp only: l fst_conv)
  show "custom_calls (snd (upscale_loop e d vm opts (lbl # labels) acc w)) = custom_calls w + 3"
    using cc by (simp only: l snd_conv) simp
qed

text \<open>
  Claim C3 does not hold of the code.  Once the variation has been created and saved, let
  the loop reach a label (after the steps for the labels before it have returned, with
  whatever upscales they completed) whose option exists and whose call of \<^verbatim>\<open>Custom\<close>
  raises on all three attempts.  Nothing in the loop catches the error that \<open>safeCall\<close>
  raises again: the answer is status 500 with the message of the third error, the
  upscales completed so far are not reported, and no later label is tried (the three
  failed calls are the last).  The three other kinds of failure are passed over, as
  \<open>generate_upscale_skips\<close> shows.
\<close>

theorem generate_upscale_raise_is_fatal:
  assumes "initializeMidjourney e w = (Inr (), w1)"
    and "truthy (originalMessageId body)" and "variationNumber body = Some vn"
    and "1 \<le> vn" and "vn \<le> 4"
    and "get_in_world (to_string (originalMessageId body)) w1 = (Found om, w2)"
    and "options om = Some os"
    and "find (\<lambda>x. label x = ''V'' @ int_string vn) os = Some vo"
    and "safeCall e \<lparr>msgId = msg_id om, cp_flags = flags om, customId = custom vo\<rparr> w2
           = (Inr (Some vm), w3)"
    and "options vm = Some vos"
    and "upscaleLabels = pre @ lbl # post"
    and "upscale_loop e (delayBetweenUpscales body) vm vos pre []
           (save_in_world e (msg_id vm) vm w3) = (Inr completed, w4)"
    and "find (\<lambda>x. label x = lbl) vos = Some uo"
    and "custom_result e (custom_calls w4)
           \<lparr>msgId = msg_id vm, cp_flags = flags vm, customId = custom uo\<rparr> = Raises e1"
    and "custom_result e (custom_calls w4 + 1)
           \<lparr>msgId = msg_id vm, cp_flags = flags vm, customId = custom uo\<rparr> = Raises e2"
    and "custom_result e (custom_calls w4 + 2)
           \<lparr>msgId = msg_id vm, cp_flags = flags vm, customId = custom uo\<rparr> = Raises e3"
  shows "fst (generate_upscale e body w) = ServerError (err_message e3) None
    \<and> status_code (fst (generate_upscale e body w)) = 500
    \<and> custom_calls (snd (generate_upscale e body w)) = custom_calls w4 + 3"
proof -
  let ?d = "delayBetweenUpscales body"
  let ?W = "save_in_world e (msg_id vm) vm w3"
  have split: "upscale_loop e ?d vm vos upscaleLabels [] ?W
      = upscale_loop e ?d vm vos (lbl # post) completed w4"
    by (simp only: assms(11) upscale_loop_append assms(12) prod.case sum.case)
  have f: "fst (upscale_loop e ?d vm vos (lbl # post) completed w4) = Inl e3"
    using assms(13-16) by (rule upscale_step_raises(1))
  have c: "custom_calls (snd (upscale_loop e ?d vm vos (lbl # post) completed w4))
      = custom_calls w4 + 3"
    using assms(13-16) by (rule upscale_step_raises(2))
  obtain w5 where l: "upscale_loop e ?d vm vos upscaleLabels [] ?W = (Inl e3, w5)"
    and c5: "custom_calls w5 = custom_calls w4 + 3"
    using f c split by (cases "upscale_loop e ?d vm vos (lbl # post) completed w4") auto
  have r: "generate_upscale e body w = (ServerError (err_message e3) None, w5)"
    using assms(1-10) l by (simp add: generate_upscale_def Let_def)
  show ?thesis using c5 by (simp add: r)
qed

text \<open>
  The hypotheses hold for the stored job o1, whose variation offers U1 and U2: the call
  for U1 returns an upscale, every call for U2 raises, and the answer is status 500 with
  the message of that error; the upscale for U1 is lost.
\<close>

theorem generate_upscale_raise_is_fatal_witness:
  "initializeMidjourney failing_upscale_env ready_world = (Inr (), ready_world)
   \<and> truthy (originalMessageId \<lparr>originalMessageId = JStr ''o1'', variationNumber = Some 1,
                                 delayBetweenUpscales = JNum (safe 12000)\<rparr>)
   \<and> variationNumber \<lparr>originalMessageId = JStr ''o1'', variationNumber = Some 1,
                       delayBetweenUpscales = JNum (safe 12000)\<rparr> = Some 1
   \<and> (1::int) \<le> 1 \<and> (1::int) \<le> 4
   \<and> get_in_world (to_string (originalMessageId
         \<lparr>originalMessageId = JStr ''o1'', variationNumber = Some 1,
           delayBetweenUpscales = JNum (safe 12000)\<rparr>)) ready_world
       = (Found (original_job\<lparr>timestamp := Some 1000\<rparr>), ready_world)
   \<and> options (original_job\<lparr>timestamp := Some 1000\<rparr>)
       = Some [\<lparr>label = ''V1'', custom = ''cv1''\<rparr>, \<lparr>label = ''V2'', custom = ''cv2''\<rparr>]
   \<and> find (\<lambda>x. label x = ''V'' @ int_string 1)
        [\<lparr>label = ''V1'', custom = ''cv1''\<rparr>, \<lparr>label = ''V2'', custom = ''cv2''\<rparr>]
       = Some \<lparr>label = ''V1'', custom = ''cv1''\<rparr>
   \<and> safeCall failing_upscale_env
        \<lparr>msgId = msg_id (original_job\<lparr>timestamp := Some 1000\<rparr>),
          cp_flags = flags (original_job\<lparr>timestamp := Some 1000\<rparr>),
          customId = custom \<lparr>label = ''V1'', custom = ''cv1''\<rparr>\<rparr> ready_world
       = (Inr (Some full_variation_job),
          snd (safeCall failing_upscale_env
                 \<lparr>msgId = msg_id (original_job\<lparr>timestamp := Some 1000\<rparr>),
                   cp_flags = flags (original_job\<lparr>timestamp := Some 1000\<rparr>),
                   customId = custom \<lparr>label = ''V1'', custom = ''cv1''\<rparr>\<rparr> ready_world))
   \<and> options full_variation_job
       = Some [\<lparr>label = ''U1'', custom = ''cu1''\<rparr>, \<lparr>label = ''U2'', custom = ''cu2''\<rparr>]
   \<and> upscaleLabels = [''U1''] @ ''U2'' # []
   \<and> upscale_loop failing_upscale_env
        (delayBetweenUpscales \<lparr>originalMessageId = JStr ''o1'', variationNumber = Some 1,
                                delayBetweenUpscales = JNum (safe 12000)\<rparr>)
        full_variation_job
        [\<lparr>label = ''U1'', custom = ''cu1''\<rparr>, \<lparr>label = ''U2'', custom = ''cu2''\<rparr>] [''U1''] []
        (save_in_world failing_upscale_env (msg_id full_variation_job) full_variation_job
           (snd (safeCall failing_upscale_env
                 \<lparr>msgId = msg_id (original_job\<lparr>timestamp := Some 1000\<rparr>),
                   cp_flags = flags (original_job\<lparr>timestamp := Some 1000\<rparr>),
                   customId = custom \<lparr>label = ''V1'', custom = ''cv1''\<rparr>\<rparr> ready_world)))
       = (Inr [\<lparr>up_label = ''U1'', up_imageUrl = ''https://cdn/u1.png'', upscaleNumber = Some 1\<rparr>],
          snd (upscale_loop failing_upscale_env
                (delayBetweenUpscales \<lparr>originalMessageId = JStr ''o1'', variationNumber = Some 1,
                                        delayBetweenUpscales = JNum (safe 12000)\<rparr>)
                full_variation_job
                [\<lparr>label = ''U1'', custom = ''cu1''\<rparr>, \<lparr>label = ''U2'', custom = ''cu2''\<rparr>]
                [''U1''] []
                (save_in_world failing_upscale_env (msg_id full_variation_job) full_variation_job
                   (snd (safeCall failing_upscale_env
                         \<lparr>msgId = msg_id (original_job\<lparr>timestamp := Some 1000\<rparr>),
                           cp_flags = flags (original_job\<lparr>timestamp := Some 1000\<rparr>),
                           customId = custom \<lparr>label = ''V1'', custom = ''cv1''\<rparr>\<rparr>
                         ready_world)))))
   \<and> find (\<lambda>x. label x = ''U2'')
        [\<lparr>label = ''U1'', custom = ''cu1''\<rparr>, \<lparr>label = ''U2'', custom = ''cu2''\<rparr>]
       = Some \<lparr>label = ''U2'', custom = ''cu2''\<rparr>
   \<and> fst (generate_upscale failing_upscale_env
        \<lparr>originalMessageId = JStr ''o1'', variationNumber = Some 1,
          delayBetweenUpscales = JNum (safe 12000)\<rparr> ready_world)
       = ServerError (err_message other_error) None
   \<and> status_code (fst (generate_upscale failing_upscale_env
        \<lparr>originalMessageId = JStr ''o1'', variationNumber = Some 1,
          delayBetweenUpscales = JNum (safe 12000)\<rparr> ready_world)) = 500
   \<and> err_message other_error = ''socket hang up''"
proof -
  let ?body = "\<lparr>originalMessageId = JStr ''o1'', variationNumber = Some 1,
                 delayBetweenUpscales = JNum (safe 12000)\<rparr>"
  let ?om = "original_job\<lparr>timestamp := Some 1000\<rparr>"
  let ?pv = "\<lparr>msgId = msg_id ?om, cp_flags = flags ?om,
               customId = custom \<lparr>label = ''V1'', custom = ''cv1''\<rparr>\<rparr>"
  let ?vos = "[\<lparr>label = ''U1'', custom = ''cu1''\<rparr>, \<lparr>label = ''U2'', custom = ''cu2''\<rparr>]"
  let ?w3 = "snd (safeCall failing_upscale_env ?pv ready_world)"
  let ?W = "save_in_world failing_upscale_env (msg_id full_variation_job) full_variation_job ?w3"
  let ?loop = "upscale_loop failing_upscale_env (delayBetweenUpscales ?body) full_variation_job
                 ?vos [''U1''] [] ?W"
  let ?pu = "\<lparr>msgId = msg_id full_variation_job, cp_flags = flags full_variation_job,
               customId = custom \<lparr>label = ''U2'', custom = ''cu2''\<rparr>\<rparr>"
  have h1: "initializeMidjourney failing_upscale_env ready_world = (Inr (), ready_world)"
    by (rule init_ready_world)
  have h2: "truthy (originalMessageId ?body)" by simp
  have h3: "variationNumber ?body = Some 1" by simp
  have h4: "(1::int) \<le> 1" by simp
  have h5: "(1::int) \<le> 4" by simp
  have h6: "get_in_world (to_string (originalMessageId ?body)) ready_world = (Found ?om, ready_world)"
    by (simp add: get_o1_ready_world)
  have h7: "options ?om
      = Some [\<lparr>label = ''V1'', custom = ''cv1''\<rparr>, \<lparr>label = ''V2'', custom = ''cv2''\<rparr>]"
    by (simp add: original_job_def)
  have h8: "find (\<lambda>x. label x = ''V'' @ int_string 1)
        [\<lparr>label = ''V1'', custom = ''cv1''\<rparr>, \<lparr>label = ''V2'', custom = ''cv2''\<rparr>]
       = Some \<lparr>label = ''V1'', custom = ''cv1''\<rparr>"
    by (simp add: int_string_1)
  have h9: "safeCall failing_upscale_env ?pv ready_world = (Inr (Some full_variation_job), ?w3)"
    by (simp add: safeCall_unroll custom_failing_upscale_env)
  have h10: "options full_variation_job = Some ?vos"
    by (simp add: full_variation_job_def job_def)
  have h11: "upscaleLabels = [''U1''] @ ''U2'' # []" by (simp add: upscaleLabels_def)
  have "fst ?loop
      = Inr [\<lparr>up_label = ''U1'', up_imageUrl = ''https://cdn/u1.png'', upscaleNumber = Some 1\<rparr>]"
    by (simp add: Let_def safeCall_unroll custom_failing_upscale_env image_url_def
          first_upscale_job_def job_def parse_int_1 Rep_safe_values)
  then have h12: "?loop
      = (Inr [\<lparr>up_label = ''U1'', up_imageUrl = ''https://cdn/u1.png'', upscaleNumber = Some 1\<rparr>],
         snd ?loop)"
    by (simp add: prod_eq_iff)
  have h13: "find (\<lambda>x. label x = ''U2'') ?vos = Some \<lparr>label = ''U2'', custom = ''cu2''\<rparr>"
    by simp
  have r: "\<And>k. custom_result failing_upscale_env k ?pu = Raises other_error"
    by (simp add: custom_failing_upscale_env)
  have m: "err_message other_error = ''socket hang up''" by (simp add: other_error_def)
  note c = generate_upscale_raise_is_fatal [OF h1 h2 h3 h4 h5 h6 h7 h8 h9 h10 h11 h12 h13 r r r]
  show ?thesis
    by (intro conjI h1 h2 h3 h4 h5 h6 h7 h8 h9 h10 h11 h12 h13 m c [THEN conjunct1]
          c [THEN conjunct2, THEN conjunct1])
qed

end
